theory Spec2Isabelle
  imports Complex_Main "HOL-Library.AList"
begin

section \<open>The multi-debt payoff simulator of app\_debt\_strategies.py\<close>

text \<open>
  The simulator compares the Snowball and the Avalanche repayment strategies by a
  month-by-month amortisation over a list of debts that share one monthly budget.
  Money amounts are the decimals of the data model: they are embedded as exact reals,
  so the rounding of the machine representation is not part of this development.
\<close>

subsection \<open>Data\<close>

text \<open>The dataclass \<open>Debt\<close>.\<close>

record Debt =
  name :: string
  balance :: real
  apr_pct :: real
  min_pay :: real

text \<open>
  The three \<open>ValueError\<close>s of \<open>simulate\<close> differ in their message only; the third
  message is formatted from the budget and the sum of the minimum payments.
\<close>

datatype message =
    Inputs_must_be_non_negative
  | Monthly_budget_must_be_positive
  | Budget_less_than_total_minimums real real

datatype error = AssertionError | ValueError message

text \<open>A cell of a snapshot row: the month is an integer, every other column a float.\<close>

datatype cell = IntCell nat | FloatCell real

text \<open>
  A snapshot is a Python dict from column names to cells and the result's
  \<open>paid_off_months\<close> a dict from debt names to a month or \<open>None\<close>. Both are
  association lists written with \<open>AList.update\<close>: storing under a key that is already
  present replaces the value and keeps the key's position, as a dict does.
\<close>

type_synonym snapshot = "(string \<times> cell) list"

record result =
  months :: nat
  result_total_interest :: real
  paid_off_months :: "(string \<times> nat option) list"

text \<open>
  The local variables of \<open>simulate\<close> that its loop changes. \<open>paid_off_month\<close> is the
  dict \<open>{i: None for i in range(n)}\<close>: its keys are the positions \<open>0..n-1\<close> and never
  change, so it is the list of its values in key order.
\<close>

record sim_state =
  debts :: "Debt list"
  month :: nat
  rows :: "snapshot list"
  total_interest :: real
  paid_off_month :: "nat option list"

subsection \<open>Helpers\<close>

definition monthly_rate :: "real \<Rightarrow> real" where
  "monthly_rate apr = apr / 100 / 12"

definition startswith :: "string \<Rightarrow> string \<Rightarrow> bool" where
  "startswith s p = (take (length p) s = p)"

text \<open>
  \<open>sorted\<close> is stable. With \<open>reverse=True\<close> it sorts as if every comparison were
  reversed and still keeps equal keys in their original order, which for numbers is
  the stable ascending sort by the negated key. \<open>sort_key\<close> is a stable insertion sort.
\<close>

definition order_debts :: "Debt list \<Rightarrow> string \<Rightarrow> nat list" where
  "order_debts ds strategy =
     (if startswith strategy ''Snowball''
      then sort_key (\<lambda>i. balance (ds ! i)) [0..<length ds]
      else sort_key (\<lambda>i. - apr_pct (ds ! i)) [0..<length ds])"

text \<open>The exact value of \<open>round(x, 2)\<close>: to the nearest hundredth, a tie to the even one.\<close>

definition round_half_even :: "real \<Rightarrow> int" where
  "round_half_even x =
     (let f = \<lfloor>x\<rfloor>; d = x - of_int f
      in if d < 1 / 2 then f else if 1 / 2 < d then f + 1
         else if even f then f else f + 1)"

definition round2 :: "real \<Rightarrow> real" where
  "round2 x = of_int (round_half_even (x * 100)) / 100"

text \<open>The em dash of the column names, as its three UTF-8 bytes.\<close>

definition em_dash :: string where
  "em_dash = [CHR 0xE2, CHR 0x80, CHR 0x94]"

definition balance_key :: "string \<Rightarrow> string" where
  "balance_key nm = nm @ '' '' @ em_dash @ '' Balance ($)''"

definition paid_key :: "string \<Rightarrow> string" where
  "paid_key nm = nm @ '' '' @ em_dash @ '' Paid This Month ($)''"

subsection \<open>One month\<close>

text \<open>Step 1: interest accrues on every debt with a positive balance.\<close>

definition accrue :: "Debt \<Rightarrow> Debt \<times> real" where
  "accrue d =
     (if balance d \<le> 0 then (d, 0)
      else (let r = monthly_rate (apr_pct d); interest = balance d * r
            in (d\<lparr>balance := balance d + interest\<rparr>, interest)))"

text \<open>
  Step 2: the minimum payments, in input order, each taken from the remaining budget.
  The result is the debts, the payments and the remaining budget.
\<close>

fun pay_minimums :: "Debt list \<Rightarrow> real \<Rightarrow> Debt list \<times> real list \<times> real" where
  "pay_minimums [] remaining_budget = ([], [], remaining_budget)"
| "pay_minimums (d # ds) remaining_budget =
     (if balance d \<le> 0
      then (case pay_minimums ds remaining_budget of
              (ds', payments, rb) \<Rightarrow> (d # ds', 0 # payments, rb))
      else (let pay = min (min_pay d) (balance d)
            in case pay_minimums ds (remaining_budget - pay) of
                 (ds', payments, rb) \<Rightarrow>
                   (d\<lparr>balance := balance d - pay\<rparr> # ds', (0 + pay) # payments, rb)))"

text \<open>
  Step 3: the walk over the target order, which ends at the first debt whose balance
  exceeds 0.005 (the \<open>break\<close>). Every index of the order is a position of the debt list.
\<close>

fun allocate_extra ::
  "nat list \<Rightarrow> Debt list \<Rightarrow> real list \<Rightarrow> real \<Rightarrow> Debt list \<times> real list \<times> real" where
  "allocate_extra [] ds payments remaining_budget = (ds, payments, remaining_budget)"
| "allocate_extra (idx # order) ds payments remaining_budget =
     (if 0.005 < balance (ds ! idx)
      then (let extra = min remaining_budget (balance (ds ! idx))
            in (ds[idx := (ds ! idx)\<lparr>balance := balance (ds ! idx) - extra\<rparr>],
                payments[idx := payments ! idx + extra],
                remaining_budget - extra))
      else allocate_extra order ds payments remaining_budget)"

definition waterfall ::
  "nat list \<Rightarrow> Debt list \<Rightarrow> real list \<Rightarrow> real \<Rightarrow> Debt list \<times> real list \<times> real" where
  "waterfall order ds payments remaining_budget =
     (if 0 < remaining_budget then allocate_extra order ds payments remaining_budget
      else (ds, payments, remaining_budget))"

text \<open>Step 4: a debt at or below 0.005 that has no payoff month yet gets one and is set to 0.\<close>

definition mark_payoff :: "nat \<Rightarrow> Debt \<times> nat option \<Rightarrow> Debt \<times> nat option" where
  "mark_payoff m dp =
     (case dp of (d, p) \<Rightarrow>
        if balance d \<le> 0.005 \<and> p = None then (d\<lparr>balance := 0\<rparr>, Some m) else (d, p))"

text \<open>The snapshot row of a month.\<close>

fun snapshot_debts :: "snapshot \<Rightarrow> (Debt \<times> real) list \<Rightarrow> snapshot" where
  "snapshot_debts snap [] = snap"
| "snapshot_debts snap ((d, payment) # dps) =
     snapshot_debts
       (AList.update (paid_key (name d)) (FloatCell (round2 payment))
          (AList.update (balance_key (name d)) (FloatCell (round2 (balance d))) snap))
       dps"

definition make_snapshot :: "nat \<Rightarrow> real \<Rightarrow> real \<Rightarrow> Debt list \<Rightarrow> real list \<Rightarrow> snapshot" where
  "make_snapshot m remaining_budget ti ds payments =
     snapshot_debts
       [(''Month'', IntCell m),
        (''Remaining Budget ($)'', FloatCell (round2 remaining_budget)),
        (''Total Interest Accrued To Date ($)'', FloatCell (round2 ti))]
       (zip ds payments)"

text \<open>
  The body of the \<open>while\<close> loop. \<open>month_parts\<close> is the month up to step 3: the debts,
  the payments, the remaining budget and the interests of the month.
\<close>

definition month_parts ::
  "real \<Rightarrow> nat list \<Rightarrow> Debt list \<Rightarrow> Debt list \<times> real list \<times> real \<times> real list" where
  "month_parts monthly_budget order ds =
     (let accrued = map accrue ds;
          interests = map snd accrued
      in case pay_minimums (map fst accrued) monthly_budget of
           (ds1, payments1, rb1) \<Rightarrow>
             (case waterfall order ds1 payments1 rb1 of
                (ds2, payments2, rb2) \<Rightarrow> (ds2, payments2, rb2, interests)))"

definition month_step :: "real \<Rightarrow> nat list \<Rightarrow> sim_state \<Rightarrow> sim_state" where
  "month_step monthly_budget order s =
     (let m = month s + 1
      in case month_parts monthly_budget order (debts s) of
           (ds2, payments, remaining_budget, interests) \<Rightarrow>
             (let marked = map (mark_payoff m) (zip ds2 (paid_off_month s));
                  ds3 = map fst marked;
                  ti = total_interest s + sum_list interests
              in \<lparr>debts = ds3, month = m,
                  rows = rows s @ [make_snapshot m remaining_budget ti ds3 payments],
                  total_interest = ti,
                  paid_off_month = map snd marked\<rparr>))"

subsection \<open>The loop and the entry point\<close>

text \<open>\<open>sum(d.balance > 0.005 for d in debts)\<close> counts the debts above 0.005.\<close>

definition unpaid_count :: "Debt list \<Rightarrow> nat" where
  "unpaid_count ds = length (filter (\<lambda>d. 0.005 < balance d) ds)"

definition loop_cond :: "sim_state \<Rightarrow> bool" where
  "loop_cond s = (0 < unpaid_count (debts s) \<and> month s < 1200)"

function sim_loop :: "real \<Rightarrow> nat list \<Rightarrow> sim_state \<Rightarrow> sim_state" where
  "sim_loop monthly_budget order s =
     (if loop_cond s then sim_loop monthly_budget order (month_step monthly_budget order s)
      else s)"
  by pat_completeness auto

termination sim_loop
  by (relation "measure (\<lambda>(b, ord, s). 1200 - month s)")
     (auto simp: loop_cond_def month_step_def Let_def split: prod.splits)

declare sim_loop.simps [simp del]

definition init_state :: "Debt list \<Rightarrow> sim_state" where
  "init_state ds =
     \<lparr>debts = ds, month = 0, rows = [], total_interest = 0,
      paid_off_month = map (\<lambda>i. None) [0..<length ds]\<rparr>"

text \<open>The dict comprehension \<open>{debts[i].name: paid_off_month[i] for i in range(n)}\<close>.\<close>

fun name_dict :: "(string \<times> nat option) list \<Rightarrow> (Debt \<times> nat option) list
    \<Rightarrow> (string \<times> nat option) list" where
  "name_dict acc [] = acc"
| "name_dict acc ((d, p) # dps) = name_dict (AList.update (name d) p acc) dps"

text \<open>
  \<open>simulate\<close>. The parameter \<open>extra_rollover\<close> is never read and is left out. The debts
  are copied on entry, so the caller's list is not changed.

  Line 55 adds the minimum payments with Python's \<open>sum\<close>, in floating point, and the
  result can round to less or to more than the exact sum. \<open>simulate_with\<close> takes that
  summation as its first argument, so that what is proved about the check of line 56
  holds whatever the sum rounds to. \<open>simulate\<close> is the function at the exact sum, the
  arithmetic in which the months are simulated here.
\<close>

definition simulate_with ::
  "(real list \<Rightarrow> real) \<Rightarrow> Debt list \<Rightarrow> real \<Rightarrow> string
     \<Rightarrow> error + (snapshot list \<times> result)" where
  "simulate_with py_sum debts_in monthly_budget strategy =
     (let n = length debts_in
      in if \<not> 0 < n then Inl AssertionError
         else if list_ex (\<lambda>d. balance d < 0 \<or> min_pay d < 0 \<or> apr_pct d < 0) debts_in
           then Inl (ValueError Inputs_must_be_non_negative)
         else if monthly_budget \<le> 0 then Inl (ValueError Monthly_budget_must_be_positive)
         else (let min_sum = py_sum (map min_pay debts_in)
               in if monthly_budget < min_sum
                  then Inl (ValueError (Budget_less_than_total_minimums monthly_budget min_sum))
                  else (let order = order_debts debts_in strategy;
                            s = sim_loop monthly_budget order (init_state debts_in)
                        in Inr (rows s,
                                \<lparr>months = month s,
                                 result_total_interest = round2 (total_interest s),
                                 paid_off_months =
                                   name_dict [] (zip (debts s) (paid_off_month s))\<rparr>))))"

definition simulate ::
  "Debt list \<Rightarrow> real \<Rightarrow> string \<Rightarrow> error + (snapshot list \<times> result)" where
  "simulate = simulate_with sum_list"

subsection \<open>Notions used to state the properties\<close>

text \<open>The state after \<open>k\<close> passes through the loop body, from the state the loop starts in.\<close>

definition state_after :: "Debt list \<Rightarrow> real \<Rightarrow> string \<Rightarrow> nat \<Rightarrow> sim_state" where
  "state_after debts_in monthly_budget strategy k =
     (month_step monthly_budget (order_debts debts_in strategy) ^^ k) (init_state debts_in)"

text \<open>The debt the walk of step 3 stops at: the first of the order above 0.005.\<close>

definition target :: "nat list \<Rightarrow> Debt list \<Rightarrow> nat option" where
  "target order ds = find (\<lambda>idx. 0.005 < balance (ds ! idx)) order"

text \<open>What steps 1 and 2 do to one debt: the accrued debt, then the amount paid and the debt after it.\<close>

definition accrue_debt :: "Debt \<Rightarrow> Debt" where
  "accrue_debt d = fst (accrue d)"

definition pay_amount :: "Debt \<Rightarrow> real" where
  "pay_amount d = (if balance d \<le> 0 then 0 else min (min_pay d) (balance d))"

definition pay_debt :: "Debt \<Rightarrow> Debt" where
  "pay_debt d = d\<lparr>balance := balance d - pay_amount d\<rparr>"

text \<open>The debts of a month after its minimum payments, before the extra payment.\<close>

definition after_minimums :: "Debt list \<Rightarrow> Debt list" where
  "after_minimums ds = map (\<lambda>d. pay_debt (accrue_debt d)) ds"

text \<open>The inputs that pass the checks of \<open>simulate\<close>.\<close>

definition valid_input :: "Debt list \<Rightarrow> real \<Rightarrow> bool" where
  "valid_input debts_in monthly_budget =
     (debts_in \<noteq> []
      \<and> \<not> list_ex (\<lambda>d. balance d < 0 \<or> min_pay d < 0 \<or> apr_pct d < 0) debts_in
      \<and> 0 < monthly_budget
      \<and> sum_list (map min_pay debts_in) \<le> monthly_budget)"

text \<open>The budget that is left after the minimum payments of a month.\<close>

definition budget_after_minimums :: "real \<Rightarrow> Debt list \<Rightarrow> real" where
  "budget_after_minimums monthly_budget ds =
     monthly_budget - (\<Sum>d\<leftarrow>ds. pay_amount (accrue_debt d))"

text \<open>The extra payment that step 3 gives to the debt at position \<open>i\<close>.\<close>

definition extra_paid :: "real \<Rightarrow> nat list \<Rightarrow> Debt list \<Rightarrow> nat \<Rightarrow> real" where
  "extra_paid monthly_budget order ds i =
     (if 0 < budget_after_minimums monthly_budget ds
         \<and> target order (after_minimums ds) = Some i
      then min (budget_after_minimums monthly_budget ds) (balance (after_minimums ds ! i))
      else 0)"

text \<open>What holds of every state of the loop when the input has passed the checks.\<close>

definition state_ok :: "real \<Rightarrow> sim_state \<Rightarrow> bool" where
  "state_ok monthly_budget s =
     (length (paid_off_month s) = length (debts s)
      \<and> length (rows s) = month s
      \<and> (\<forall>i<length (debts s).
            0 \<le> balance (debts s ! i) \<and> 0 \<le> apr_pct (debts s ! i) \<and> 0 \<le> min_pay (debts s ! i))
      \<and> sum_list (map min_pay (debts s)) \<le> monthly_budget
      \<and> (\<forall>i<length (debts s). paid_off_month s ! i \<noteq> None \<longrightarrow> balance (debts s ! i) = 0))"

section \<open>Properties\<close>

subsection \<open>The steps of a month in closed form\<close>

lemma pay_minimums_eq:
  "pay_minimums ds rb = (map pay_debt ds, map pay_amount ds, rb - sum_list (map pay_amount ds))"
  by (induction ds arbitrary: rb) (auto simp: pay_debt_def pay_amount_def Let_def)

lemma allocate_extra_eq:
  "allocate_extra ord ds ps rb =
     (case target ord ds of
        None \<Rightarrow> (ds, ps, rb)
      | Some t \<Rightarrow>
          (ds[t := (ds ! t)\<lparr>balance := balance (ds ! t) - min rb (balance (ds ! t))\<rparr>],
           ps[t := ps ! t + min rb (balance (ds ! t))],
           rb - min rb (balance (ds ! t))))"
  by (induction ord) (auto simp: target_def Let_def)

lemma month_parts_eq:
  "month_parts b ord ds =
     (case waterfall ord (after_minimums ds) (map (\<lambda>d. pay_amount (accrue_debt d)) ds)
             (b - (\<Sum>d\<leftarrow>ds. pay_amount (accrue_debt d))) of
        (ds2, ps2, rb2) \<Rightarrow> (ds2, ps2, rb2, map (\<lambda>d. snd (accrue d)) ds))"
  by (simp add: month_parts_def pay_minimums_eq after_minimums_def accrue_debt_def comp_def Let_def)

subsection \<open>The loop as an iteration of its body\<close>

lemma sim_loop_funpow:
  "\<exists>k. sim_loop b ord s = (month_step b ord ^^ k) s
       \<and> (\<forall>j<k. loop_cond ((month_step b ord ^^ j) s))
       \<and> \<not> loop_cond ((month_step b ord ^^ k) s)"
proof (induction b ord s rule: sim_loop.induct)
  case (1 b ord s)
  show ?case
  proof (cases "loop_cond s")
    case False
    then have "sim_loop b ord s = (month_step b ord ^^ 0) s" by (simp add: sim_loop.simps)
    with False show ?thesis by (intro exI[of _ 0]) simp
  next
    case True
    from 1[OF True] obtain k where k:
      "sim_loop b ord (month_step b ord s) = (month_step b ord ^^ k) (month_step b ord s)"
      "\<forall>j<k. loop_cond ((month_step b ord ^^ j) (month_step b ord s))"
      "\<not> loop_cond ((month_step b ord ^^ k) (month_step b ord s))" by blast
    have "sim_loop b ord s = (month_step b ord ^^ Suc k) s"
      using True k(1) by (simp add: sim_loop.simps[of b ord s] funpow_swap1)
    moreover have "\<forall>j<Suc k. loop_cond ((month_step b ord ^^ j) s)"
    proof (intro allI impI)
      fix j assume "j < Suc k"
      show "loop_cond ((month_step b ord ^^ j) s)"
      proof (cases j)
        case 0 then show ?thesis using True by simp
      next
        case (Suc j')
        then show ?thesis using k(2) \<open>j < Suc k\<close> by (simp add: funpow_swap1)
      qed
    qed
    moreover have "\<not> loop_cond ((month_step b ord ^^ Suc k) s)"
      using k(3) by (simp add: funpow_swap1)
    ultimately show ?thesis by blast
  qed
qed

lemma month_funpow: "month ((month_step b ord ^^ k) s) = month s + k"
  by (induction k) (auto simp: month_step_def Let_def split: prod.splits)

subsection \<open>Rejected inputs\<close>

text \<open>
  C10. The empty debt list fails the assertion \<open>n > 0\<close>, whatever the budget and the
  strategy: \<open>simulate\<close> neither returns a result nor raises a \<open>ValueError\<close>.
\<close>

theorem simulate_empty_list_assertion: "simulate [] b st = Inl AssertionError"
  by (simp add: simulate_def simulate_with_def)

theorem simulate_empty_list_assertion_witness:
  "simulate [] 250 ''Snowball (Smallest Balance First)'' = Inl AssertionError"
  using simulate_empty_list_assertion [of 250 "''Snowball (Smallest Balance First)''"] by simp

text \<open>
  C2, as stated, fails on the empty debt list with a budget of 0: the budget is not
  positive, yet the error is the assertion failure and not a \<open>ValueError\<close>.
\<close>

theorem validation_error_counterexample:
  "simulate [] 0 ''Snowball (Smallest Balance First)'' = Inl AssertionError
   \<and> simulate [] 0 ''Snowball (Smallest Balance First)''
       \<noteq> Inl (ValueError Monthly_budget_must_be_positive)"
  by (simp add: simulate_def simulate_with_def)

text \<open>
  C2, amended. For every non-empty debt list in which some debt has a negative balance,
  minimum payment or rate, or whose budget is not positive, or whose minimum payments,
  added up the way line 55 adds them (in floating point, whatever that sum rounds to),
  come to more than the budget, \<open>simulate\<close> raises a \<open>ValueError\<close>. The error is the
  whole outcome: no month has run and no snapshot comes with it.
\<close>

theorem validation_error_nonempty:
  assumes "debts_in \<noteq> []"
    and "list_ex (\<lambda>d. balance d < 0 \<or> min_pay d < 0 \<or> apr_pct d < 0) debts_in
         \<or> monthly_budget \<le> 0
         \<or> monthly_budget < py_sum (map min_pay debts_in)"
  shows "\<exists>m. simulate_with py_sum debts_in monthly_budget strategy = Inl (ValueError m)"
  using assms by (auto simp: simulate_with_def Let_def)

theorem validation_error_nonempty_witness:
  "\<exists>m. simulate [\<lparr>name = ''Card'', balance = 900, apr_pct = 20, min_pay = 50\<rparr>] 40
         ''Avalanche (Highest APR First)'' = Inl (ValueError m)"
  using validation_error_nonempty
      [of "[\<lparr>name = ''Card'', balance = 900, apr_pct = 20, min_pay = 50\<rparr>]" 40 sum_list
          "''Avalanche (Highest APR First)''"]
  by (simp add: simulate_def)

text \<open>
  Whatever the summation of line 55 returns, a run that it lets pass is the run of
  \<open>simulate\<close>, provided the exact sum of the minimum payments is within the budget.
\<close>

lemma simulate_with_accepts:
  assumes "simulate_with py_sum debts_in monthly_budget strategy = Inr r"
    and "sum_list (map min_pay debts_in) \<le> monthly_budget"
  shows "simulate debts_in monthly_budget strategy = Inr r"
  using assms
  by (auto simp: simulate_def simulate_with_def Let_def not_less split: if_splits)

subsection \<open>The state after one month, position by position\<close>

lemma accrue_debt_simps [simp]:
  "name (accrue_debt d) = name d"
  "apr_pct (accrue_debt d) = apr_pct d"
  "min_pay (accrue_debt d) = min_pay d"
  "balance (accrue_debt d) =
     (if balance d \<le> 0 then balance d else balance d + balance d * monthly_rate (apr_pct d))"
  by (simp_all add: accrue_debt_def accrue_def Let_def)

lemma pay_debt_simps [simp]:
  "name (pay_debt d) = name d"
  "apr_pct (pay_debt d) = apr_pct d"
  "min_pay (pay_debt d) = min_pay d"
  "balance (pay_debt d) = balance d - pay_amount d"
  by (simp_all add: pay_debt_def)

lemma length_after_minimums [simp]: "length (after_minimums ds) = length ds"
  by (simp add: after_minimums_def)

lemma nth_after_minimums [simp]:
  "i < length ds \<Longrightarrow> after_minimums ds ! i = pay_debt (accrue_debt (ds ! i))"
  by (simp add: after_minimums_def)

lemma waterfall_eq:
  "waterfall ord ds ps rb =
     (case (if 0 < rb then target ord ds else None) of
        None \<Rightarrow> (ds, ps, rb)
      | Some t \<Rightarrow>
          (ds[t := (ds ! t)\<lparr>balance := balance (ds ! t) - min rb (balance (ds ! t))\<rparr>],
           ps[t := ps ! t + min rb (balance (ds ! t))],
           rb - min rb (balance (ds ! t))))"
  by (simp add: waterfall_def allocate_extra_eq)

lemma waterfall_length:
  assumes "waterfall ord ds ps rb = (ds', ps', rb')"
  shows "length ds' = length ds" and "length ps' = length ps"
  using assms by (auto simp: waterfall_eq split: option.splits if_splits)

lemma waterfall_nth:
  assumes "waterfall ord ds ps rb = (ds', ps', rb')" and "i < length ds" and "length ps = length ds"
  shows "ds' ! i = (if 0 < rb \<and> target ord ds = Some i
                    then (ds ! i)\<lparr>balance := balance (ds ! i) - min rb (balance (ds ! i))\<rparr>
                    else ds ! i)"
    and "ps' ! i = (if 0 < rb \<and> target ord ds = Some i
                    then ps ! i + min rb (balance (ds ! i)) else ps ! i)"
  using assms by (auto simp: waterfall_eq nth_list_update split: option.splits if_splits)

lemma waterfall_remaining:
  assumes "waterfall ord ds ps rb = (ds', ps', rb')"
  shows "rb' = (case (if 0 < rb then target ord ds else None) of
                  None \<Rightarrow> rb | Some t \<Rightarrow> rb - min rb (balance (ds ! t)))"
  using assms by (auto simp: waterfall_eq split: option.splits if_splits)

lemma month_step_fields:
  assumes "waterfall ord (after_minimums (debts s)) (map (\<lambda>d. pay_amount (accrue_debt d)) (debts s))
             (b - (\<Sum>d\<leftarrow>debts s. pay_amount (accrue_debt d))) = (ds2, ps2, rb2)"
  shows "debts (month_step b ord s) =
           map fst (map (mark_payoff (month s + 1)) (zip ds2 (paid_off_month s)))"
    and "paid_off_month (month_step b ord s) =
           map snd (map (mark_payoff (month s + 1)) (zip ds2 (paid_off_month s)))"
    and "month (month_step b ord s) = month s + 1"
    and "total_interest (month_step b ord s) =
           total_interest s + (\<Sum>d\<leftarrow>debts s. snd (accrue d))"
    and "rows (month_step b ord s) =
           rows s @ [make_snapshot (month s + 1) rb2
                       (total_interest s + (\<Sum>d\<leftarrow>debts s. snd (accrue d)))
                       (map fst (map (mark_payoff (month s + 1)) (zip ds2 (paid_off_month s)))) ps2]"
  using assms by (simp_all add: month_step_def month_parts_eq Let_def)

lemma month_step_lengths:
  assumes "length (paid_off_month s) = length (debts s)"
  shows "length (debts (month_step b ord s)) = length (debts s)"
    and "length (paid_off_month (month_step b ord s)) = length (debts s)"
proof -
  obtain ds2 ps2 rb2 where w:
    "waterfall ord (after_minimums (debts s)) (map (\<lambda>d. pay_amount (accrue_debt d)) (debts s))
       (b - (\<Sum>d\<leftarrow>debts s. pay_amount (accrue_debt d))) = (ds2, ps2, rb2)"
    by (metis prod_cases3)
  have "length ds2 = length (debts s)" using waterfall_length(1)[OF w] by simp
  then show "length (debts (month_step b ord s)) = length (debts s)"
    and "length (paid_off_month (month_step b ord s)) = length (debts s)"
    using assms by (simp_all add: month_step_fields[OF w])
qed

lemma target_SomeD:
  assumes "target ord ds = Some t"
  shows "t \<in> set ord" and "0.005 < balance (ds ! t)"
  using assms by (auto simp: target_def find_Some_iff)

lemma mark_payoff_simps [simp]:
  "name (fst (mark_payoff m (d, p))) = name d"
  "apr_pct (fst (mark_payoff m (d, p))) = apr_pct d"
  "min_pay (fst (mark_payoff m (d, p))) = min_pay d"
  "balance (fst (mark_payoff m (d, p))) = (if balance d \<le> 0.005 \<and> p = None then 0 else balance d)"
  "snd (mark_payoff m (d, p)) = (if balance d \<le> 0.005 \<and> p = None then Some m else p)"
  by (simp_all add: mark_payoff_def)

lemma month_parts_nth:
  assumes "month_parts b ord ds = (ds2, ps2, rb2, ints)" and "i < length ds"
  shows "name (ds2 ! i) = name (ds ! i)"
    and "apr_pct (ds2 ! i) = apr_pct (ds ! i)"
    and "min_pay (ds2 ! i) = min_pay (ds ! i)"
    and "balance (ds2 ! i) = balance (after_minimums ds ! i) - extra_paid b ord ds i"
    and "ps2 ! i = pay_amount (accrue_debt (ds ! i)) + extra_paid b ord ds i"
    and "ints ! i = snd (accrue (ds ! i))"
    and "length ds2 = length ds" and "length ps2 = length ds" and "length ints = length ds"
proof -
  have w: "waterfall ord (after_minimums ds) (map (\<lambda>d. pay_amount (accrue_debt d)) ds)
             (budget_after_minimums b ds) = (ds2, ps2, rb2)"
    and ints: "ints = map (\<lambda>d. snd (accrue d)) ds"
    using assms(1) by (auto simp: month_parts_eq budget_after_minimums_def split: prod.splits)
  have i: "i < length (after_minimums ds)" using assms(2) by simp
  have l: "length (map (\<lambda>d. pay_amount (accrue_debt d)) ds) = length (after_minimums ds)" by simp
  note n = waterfall_nth[OF w i l]
  show "name (ds2 ! i) = name (ds ! i)" "apr_pct (ds2 ! i) = apr_pct (ds ! i)"
    "min_pay (ds2 ! i) = min_pay (ds ! i)"
    using n(1) assms(2) by (simp_all split: if_splits)
  show "balance (ds2 ! i) = balance (after_minimums ds ! i) - extra_paid b ord ds i"
    using n(1) assms(2) by (simp add: extra_paid_def split: if_splits)
  show "ps2 ! i = pay_amount (accrue_debt (ds ! i)) + extra_paid b ord ds i"
    using n(2) assms(2) by (simp add: extra_paid_def split: if_splits)
  show "ints ! i = snd (accrue (ds ! i))" using ints assms(2) by simp
  show "length ds2 = length ds" "length ps2 = length ds" "length ints = length ds"
    using waterfall_length[OF w] ints by simp_all
qed

lemma extra_paid_bounds:
  shows "0 \<le> balance (after_minimums ds ! i)
           \<Longrightarrow> extra_paid b ord ds i \<le> balance (after_minimums ds ! i)"
    and "0 \<le> extra_paid b ord ds i"
    and "extra_paid b ord ds i \<noteq> 0 \<Longrightarrow> 0.005 < balance (after_minimums ds ! i)"
  using target_SomeD(2)[of ord "after_minimums ds" i]
  by (auto simp: extra_paid_def split: if_splits)

lemma after_minimums_balance:
  assumes "i < length ds" and "0 \<le> balance (ds ! i)" and "0 \<le> apr_pct (ds ! i)"
  shows "0 \<le> balance (after_minimums ds ! i)"
    and "balance (ds ! i) = 0 \<Longrightarrow> balance (after_minimums ds ! i) = 0"
  using assms by (auto simp: pay_amount_def monthly_rate_def)

subsection \<open>What every state of the loop satisfies\<close>

lemma month_step_parts:
  assumes "month_parts b ord (debts s) = (ds2, ps, rb, ints)"
  shows "debts (month_step b ord s) =
           map fst (map (mark_payoff (month s + 1)) (zip ds2 (paid_off_month s)))"
    and "paid_off_month (month_step b ord s) =
           map snd (map (mark_payoff (month s + 1)) (zip ds2 (paid_off_month s)))"
    and "month (month_step b ord s) = month s + 1"
    and "total_interest (month_step b ord s) = total_interest s + sum_list ints"
    and "length (rows (month_step b ord s)) = length (rows s) + 1"
  using assms by (simp_all add: month_step_def Let_def)

lemma month_step_at:
  assumes "length (paid_off_month s) = length (debts s)" and "i < length (debts s)"
  shows "name (debts (month_step b ord s) ! i) = name (debts s ! i)"
    and "apr_pct (debts (month_step b ord s) ! i) = apr_pct (debts s ! i)"
    and "min_pay (debts (month_step b ord s) ! i) = min_pay (debts s ! i)"
    and "balance (debts (month_step b ord s) ! i) =
           (if balance (after_minimums (debts s) ! i) - extra_paid b ord (debts s) i \<le> 0.005
               \<and> paid_off_month s ! i = None
            then 0
            else balance (after_minimums (debts s) ! i) - extra_paid b ord (debts s) i)"
    and "paid_off_month (month_step b ord s) ! i =
           (if balance (after_minimums (debts s) ! i) - extra_paid b ord (debts s) i \<le> 0.005
               \<and> paid_off_month s ! i = None
            then Some (month s + 1)
            else paid_off_month s ! i)"
proof -
  obtain ds2 ps rb ints where p: "month_parts b ord (debts s) = (ds2, ps, rb, ints)"
    by (metis prod_cases4)
  note n = month_parts_nth[OF p assms(2)]
  have l: "i < length ds2" "i < length (paid_off_month s)" using n(7) assms by simp_all
  have d: "debts (month_step b ord s) ! i = fst (mark_payoff (month s + 1) (ds2 ! i, paid_off_month s ! i))"
    and q: "paid_off_month (month_step b ord s) ! i
              = snd (mark_payoff (month s + 1) (ds2 ! i, paid_off_month s ! i))"
    using l by (simp_all add: month_step_parts[OF p])
  show "name (debts (month_step b ord s) ! i) = name (debts s ! i)"
    "apr_pct (debts (month_step b ord s) ! i) = apr_pct (debts s ! i)"
    "min_pay (debts (month_step b ord s) ! i) = min_pay (debts s ! i)"
    using n(1-3) by (simp_all add: d)
  show "balance (debts (month_step b ord s) ! i) =
           (if balance (after_minimums (debts s) ! i) - extra_paid b ord (debts s) i \<le> 0.005
               \<and> paid_off_month s ! i = None
            then 0
            else balance (after_minimums (debts s) ! i) - extra_paid b ord (debts s) i)"
    using n(4) by (simp add: d)
  show "paid_off_month (month_step b ord s) ! i =
           (if balance (after_minimums (debts s) ! i) - extra_paid b ord (debts s) i \<le> 0.005
               \<and> paid_off_month s ! i = None
            then Some (month s + 1)
            else paid_off_month s ! i)"
    using n(4) by (simp add: q)
qed

lemma month_step_min_pays:
  assumes "length (paid_off_month s) = length (debts s)"
  shows "map min_pay (debts (month_step b ord s)) = map min_pay (debts s)"
    and "map name (debts (month_step b ord s)) = map name (debts s)"
  using assms
  by (auto intro!: nth_equalityI simp: month_step_lengths month_step_at)

lemma state_ok_step:
  assumes "state_ok b s"
  shows "state_ok b (month_step b ord s)"
proof -
  have len: "length (paid_off_month s) = length (debts s)"
    and rws: "length (rows s) = month s"
    and nn: "\<And>i. i < length (debts s) \<Longrightarrow>
               0 \<le> balance (debts s ! i) \<and> 0 \<le> apr_pct (debts s ! i) \<and> 0 \<le> min_pay (debts s ! i)"
    and ms: "sum_list (map min_pay (debts s)) \<le> b"
    and pz: "\<And>i. i < length (debts s) \<Longrightarrow> paid_off_month s ! i \<noteq> None
               \<Longrightarrow> balance (debts s ! i) = 0"
    using assms by (auto simp: state_ok_def)
  have l1: "length (debts (month_step b ord s)) = length (debts s)"
    and l2: "length (paid_off_month (month_step b ord s)) = length (debts s)"
    using month_step_lengths[OF len] by simp_all
  have r: "length (rows (month_step b ord s)) = month (month_step b ord s)"
    using rws by (simp add: month_step_def Let_def split: prod.splits)
  have m: "sum_list (map min_pay (debts (month_step b ord s))) \<le> b"
    using ms by (simp add: month_step_min_pays(1)[OF len])
  have a: "0 \<le> balance (debts (month_step b ord s) ! i)
           \<and> 0 \<le> apr_pct (debts (month_step b ord s) ! i)
           \<and> 0 \<le> min_pay (debts (month_step b ord s) ! i)" if i: "i < length (debts s)" for i
  proof -
    have "0 \<le> balance (after_minimums (debts s) ! i)"
      using after_minimums_balance(1)[OF i] nn[OF i] by simp
    then have "extra_paid b ord (debts s) i \<le> balance (after_minimums (debts s) ! i)"
      by (rule extra_paid_bounds(1))
    then show ?thesis using nn[OF i] by (simp add: month_step_at[OF len i])
  qed
  have z: "balance (debts (month_step b ord s) ! i) = 0"
    if i: "i < length (debts s)" and p: "paid_off_month (month_step b ord s) ! i \<noteq> None" for i
  proof (cases "paid_off_month s ! i = None")
    case True
    then show ?thesis using p by (simp add: month_step_at[OF len i] split: if_splits)
  next
    case False
    then have "balance (debts s ! i) = 0" using pz[OF i] by simp
    then have am: "balance (after_minimums (debts s) ! i) = 0"
      using after_minimums_balance(2)[OF i] nn[OF i] by simp
    then have "extra_paid b ord (debts s) i = 0"
      using extra_paid_bounds(3)[of b ord "debts s" i] by auto
    then show ?thesis using False am by (simp add: month_step_at[OF len i])
  qed
  show ?thesis
    unfolding state_ok_def using l1 l2 r m a z by simp
qed

lemma state_ok_init:
  assumes "valid_input ds b"
  shows "state_ok b (init_state ds)"
  using assms
  by (auto simp: state_ok_def init_state_def valid_input_def list_ex_iff not_less)

lemma state_ok_after:
  assumes "valid_input ds b"
  shows "state_ok b (state_after ds b st k)"
  by (induction k) (simp_all add: state_after_def state_ok_init[OF assms] state_ok_step)

subsection \<open>The result of \<open>simulate\<close> in terms of the states of the loop\<close>

lemma month_state_after [simp]: "month (state_after ds b st k) = k"
  by (simp add: state_after_def month_funpow init_state_def)

lemma state_after_Suc:
  "state_after ds b st (Suc k) = month_step b (order_debts ds st) (state_after ds b st k)"
  by (simp add: state_after_def)

lemma length_debts_state_after:
  assumes "valid_input ds b"
  shows "length (debts (state_after ds b st k)) = length ds"
proof (induction k)
  case 0
  show ?case by (simp add: state_after_def init_state_def)
next
  case (Suc k)
  have "length (paid_off_month (state_after ds b st k)) = length (debts (state_after ds b st k))"
    using state_ok_after[OF assms, of st k] by (simp add: state_ok_def)
  then show ?case using Suc by (simp add: state_after_Suc month_step_lengths)
qed

lemma simulate_Inr_valid:
  assumes "simulate ds b st = Inr r"
  shows "valid_input ds b"
  using assms
  by (auto simp: simulate_def simulate_with_def valid_input_def Let_def not_less
        split: if_splits)

lemma simulate_valid:
  assumes "valid_input ds b"
  shows "\<exists>k. simulate ds b st =
               Inr (rows (state_after ds b st k),
                    \<lparr>months = k,
                     result_total_interest = round2 (total_interest (state_after ds b st k)),
                     paid_off_months = name_dict [] (zip (debts (state_after ds b st k))
                                                        (paid_off_month (state_after ds b st k)))\<rparr>)
             \<and> (\<forall>j<k. loop_cond (state_after ds b st j))
             \<and> \<not> loop_cond (state_after ds b st k)"
proof -
  obtain k where k:
    "sim_loop b (order_debts ds st) (init_state ds) = state_after ds b st k"
    "\<forall>j<k. loop_cond (state_after ds b st j)"
    "\<not> loop_cond (state_after ds b st k)"
    using sim_loop_funpow[of b "order_debts ds st" "init_state ds"]
    unfolding state_after_def by blast
  have "simulate ds b st =
          Inr (rows (state_after ds b st k),
               \<lparr>months = k,
                result_total_interest = round2 (total_interest (state_after ds b st k)),
                paid_off_months = name_dict [] (zip (debts (state_after ds b st k))
                                                   (paid_off_month (state_after ds b st k)))\<rparr>)"
    using assms k(1)
    by (simp add: simulate_def simulate_with_def valid_input_def Let_def not_less)
  with k(2,3) show ?thesis by blast
qed

lemma simulate_Inr:
  assumes "simulate ds b st = Inr (rws, res)"
  shows "valid_input ds b"
    and "rws = rows (state_after ds b st (months res))"
    and "result_total_interest res = round2 (total_interest (state_after ds b st (months res)))"
    and "paid_off_months res = name_dict [] (zip (debts (state_after ds b st (months res)))
                                                 (paid_off_month (state_after ds b st (months res))))"
    and "\<forall>j<months res. loop_cond (state_after ds b st j)"
    and "\<not> loop_cond (state_after ds b st (months res))"
proof -
  show v: "valid_input ds b" using assms by (rule simulate_Inr_valid)
  from simulate_valid[OF v, of st] obtain k where k:
    "simulate ds b st =
       Inr (rows (state_after ds b st k),
            \<lparr>months = k,
             result_total_interest = round2 (total_interest (state_after ds b st k)),
             paid_off_months = name_dict [] (zip (debts (state_after ds b st k))
                                                (paid_off_month (state_after ds b st k)))\<rparr>)"
    "\<forall>j<k. loop_cond (state_after ds b st j)"
    "\<not> loop_cond (state_after ds b st k)" by blast
  from k(1) assms have r: "rws = rows (state_after ds b st k)"
    and e: "res = \<lparr>months = k,
             result_total_interest = round2 (total_interest (state_after ds b st k)),
             paid_off_months = name_dict [] (zip (debts (state_after ds b st k))
                                                (paid_off_month (state_after ds b st k)))\<rparr>"
    by simp_all
  have m: "months res = k" using e by simp
  show "rws = rows (state_after ds b st (months res))" using r m by simp
  show "result_total_interest res = round2 (total_interest (state_after ds b st (months res)))"
    using e m by simp
  show "paid_off_months res = name_dict [] (zip (debts (state_after ds b st (months res)))
                                                 (paid_off_month (state_after ds b st (months res))))"
    using e m by simp
  show "\<forall>j<months res. loop_cond (state_after ds b st j)" using k(2) m by simp
  show "\<not> loop_cond (state_after ds b st (months res))" using k(3) m by simp
qed

lemma months_le_horizon:
  assumes "simulate ds b st = Inr (rws, res)"
  shows "months res \<le> 1200"
proof (rule ccontr)
  assume "\<not> months res \<le> 1200"
  then have "1200 < months res" by simp
  then have "loop_cond (state_after ds b st 1200)" using simulate_Inr(5)[OF assms] by blast
  then show False by (simp add: loop_cond_def)
qed

subsection \<open>Termination and the snapshot sequence\<close>

lemma keys_not_Month: "balance_key nm \<noteq> ''Month''" "paid_key nm \<noteq> ''Month''"
  by (auto simp: balance_key_def paid_key_def em_dash_def dest: arg_cong[of _ _ length])

lemma snapshot_debts_Month:
  "map_of (snapshot_debts snap dps) ''Month'' = map_of snap ''Month''"
  by (induction snap dps rule: snapshot_debts.induct)
     (simp_all add: update_conv' keys_not_Month keys_not_Month[symmetric])

lemma make_snapshot_Month:
  "map_of (make_snapshot m rb ti ds ps) ''Month'' = Some (IntCell m)"
  by (simp add: make_snapshot_def snapshot_debts_Month)

lemma rows_month_step:
  "\<exists>snap. rows (month_step b ord s) = rows s @ [snap]
          \<and> map_of snap ''Month'' = Some (IntCell (month s + 1))"
  by (simp add: month_step_def Let_def make_snapshot_Month split: prod.splits)

lemma rows_state_after:
  "length (rows (state_after ds b st k)) = k
   \<and> (\<forall>j<k. map_of (rows (state_after ds b st k) ! j) ''Month'' = Some (IntCell (j + 1)))"
proof (induction k)
  case 0
  show ?case by (simp add: state_after_def init_state_def)
next
  case (Suc k)
  obtain snap where s:
    "rows (state_after ds b st (Suc k)) = rows (state_after ds b st k) @ [snap]"
    "map_of snap ''Month'' = Some (IntCell (k + 1))"
    using rows_month_step[of b "order_debts ds st" "state_after ds b st k"]
    by (auto simp: state_after_Suc)
  show ?case
  proof (intro conjI allI impI)
    show "length (rows (state_after ds b st (Suc k))) = Suc k" using s(1) Suc by simp
  next
    fix j assume "j < Suc k"
    then show "map_of (rows (state_after ds b st (Suc k)) ! j) ''Month'' = Some (IntCell (j + 1))"
      using s Suc by (cases "j = k") (auto simp: nth_append)
  qed
qed



subsection \<open>Balances never go negative\<close>

lemma pay_amount_bounds:
  "0 \<le> min_pay d \<Longrightarrow> 0 \<le> pay_amount d"
  "0 \<le> min_pay d \<Longrightarrow> pay_amount d \<le> min_pay d"
  "0 \<le> balance d \<Longrightarrow> pay_amount d \<le> balance d"
  by (auto simp: pay_amount_def)

lemma fields_state_after:
  assumes "valid_input ds b"
  shows "map min_pay (debts (state_after ds b st k)) = map min_pay ds"
    and "map name (debts (state_after ds b st k)) = map name ds"
proof -
  have l: "length (paid_off_month (state_after ds b st j)) = length (debts (state_after ds b st j))"
    for j using state_ok_after[OF assms, of st j] by (simp add: state_ok_def)
  show "map min_pay (debts (state_after ds b st k)) = map min_pay ds"
    by (induction k)
       (simp_all add: state_after_Suc month_step_min_pays(1)[OF l],
        simp add: state_after_def init_state_def)
  show "map name (debts (state_after ds b st k)) = map name ds"
    by (induction k)
       (simp_all add: state_after_Suc month_step_min_pays(2)[OF l],
        simp add: state_after_def init_state_def)
qed

lemma field_state_after_nth:
  assumes "valid_input ds b" and "i < length ds"
  shows "min_pay (debts (state_after ds b st k) ! i) = min_pay (ds ! i)"
    and "name (debts (state_after ds b st k) ! i) = name (ds ! i)"
proof -
  have l: "i < length (debts (state_after ds b st k))"
    using assms length_debts_state_after by simp
  have "map min_pay (debts (state_after ds b st k)) ! i = map min_pay ds ! i"
    by (simp only: fields_state_after(1)[OF assms(1)])
  then show "min_pay (debts (state_after ds b st k) ! i) = min_pay (ds ! i)"
    using l assms(2) by simp
  have "map name (debts (state_after ds b st k)) ! i = map name ds ! i"
    by (simp only: fields_state_after(2)[OF assms(1)])
  then show "name (debts (state_after ds b st k) ! i) = name (ds ! i)"
    using l assms(2) by simp
qed

text \<open>
  C4. For every input that passes the checks, every debt's balance is non-negative in
  every state of the loop (at the start and after each simulated month). In each month
  the amount paid to a debt is non-negative and never exceeds the balance it has after
  interest, its minimum payment is at most \<open>min(min_pay, balance)\<close>, and its balance
  after the extra payment is non-negative.
\<close>

theorem balances_never_negative:
  assumes "simulate debts_in monthly_budget strategy = Inr (rws, res)"
    and "k \<le> months res" and "i < length debts_in"
  shows "0 \<le> balance (debts (state_after debts_in monthly_budget strategy k) ! i)
         \<and> (\<forall>ds2 ps rb ints.
               month_parts monthly_budget (order_debts debts_in strategy)
                 (debts (state_after debts_in monthly_budget strategy k)) = (ds2, ps, rb, ints)
               \<longrightarrow> 0 \<le> ps ! i
                   \<and> ps ! i \<le> balance (accrue_debt
                                   (debts (state_after debts_in monthly_budget strategy k) ! i))
                   \<and> pay_amount (accrue_debt
                        (debts (state_after debts_in monthly_budget strategy k) ! i))
                       \<le> min (min_pay (debts_in ! i))
                              (balance (accrue_debt
                                 (debts (state_after debts_in monthly_budget strategy k) ! i)))
                   \<and> 0 \<le> balance (ds2 ! i))"
proof -
  let ?s = "state_after debts_in monthly_budget strategy k"
  have v: "valid_input debts_in monthly_budget" using assms(1) by (rule simulate_Inr_valid)
  have ok: "state_ok monthly_budget ?s" using v by (rule state_ok_after)
  have i: "i < length (debts ?s)" using assms(3) length_debts_state_after[OF v] by simp
  have nn: "0 \<le> balance (debts ?s ! i)" "0 \<le> apr_pct (debts ?s ! i)" "0 \<le> min_pay (debts ?s ! i)"
    using ok i by (simp_all add: state_ok_def)
  have mp: "min_pay (debts ?s ! i) = min_pay (debts_in ! i)"
    using field_state_after_nth(1)[OF v assms(3)] .
  have acc: "0 \<le> balance (accrue_debt (debts ?s ! i))"
    using nn by (simp add: monthly_rate_def)
  have am: "0 \<le> balance (after_minimums (debts ?s) ! i)"
    using after_minimums_balance(1)[OF i nn(1,2)] .
  have ex: "0 \<le> extra_paid monthly_budget (order_debts debts_in strategy) (debts ?s) i"
    "extra_paid monthly_budget (order_debts debts_in strategy) (debts ?s) i
       \<le> balance (after_minimums (debts ?s) ! i)"
    using extra_paid_bounds(2) extra_paid_bounds(1)[OF am] by simp_all
  have pa: "0 \<le> pay_amount (accrue_debt (debts ?s ! i))"
    "pay_amount (accrue_debt (debts ?s ! i)) \<le> min_pay (debts ?s ! i)"
    "pay_amount (accrue_debt (debts ?s ! i)) \<le> balance (accrue_debt (debts ?s ! i))"
    using pay_amount_bounds[of "accrue_debt (debts ?s ! i)"] nn(3) acc by simp_all
  show ?thesis
  proof (intro conjI allI impI)
    show "0 \<le> balance (debts ?s ! i)" by (rule nn(1))
  next
    fix ds2 ps rb ints
    assume p: "month_parts monthly_budget (order_debts debts_in strategy) (debts ?s)
                 = (ds2, ps, rb, ints)"
    note n = month_parts_nth[OF p i]
    show "0 \<le> ps ! i" using n(5) pa(1) ex(1) by simp
    show "ps ! i \<le> balance (accrue_debt (debts ?s ! i))"
      using n(5) ex(2) i by simp
    show "pay_amount (accrue_debt (debts ?s ! i))
            \<le> min (min_pay (debts_in ! i)) (balance (accrue_debt (debts ?s ! i)))"
      using pa(2,3) mp by simp
    show "0 \<le> balance (ds2 ! i)" using n(4) ex(2) by simp
  qed
qed

theorem balances_never_negative_witness:
  "0 \<le> balance (debts (state_after
        [\<lparr>name = ''Loan'', balance = 300, apr_pct = 12, min_pay = 100\<rparr>] 100
        ''Snowball (Smallest Balance First)'' 3) ! 0)"
proof -
  have e: "simulate [\<lparr>name = ''Loan'', balance = 300, apr_pct = 12, min_pay = 100\<rparr>] 100
             ''Snowball (Smallest Balance First)''
           = Inr (fst (projr (simulate
                    [\<lparr>name = ''Loan'', balance = 300, apr_pct = 12, min_pay = 100\<rparr>] 100
                    ''Snowball (Smallest Balance First)'')),
                  snd (projr (simulate
                    [\<lparr>name = ''Loan'', balance = 300, apr_pct = 12, min_pay = 100\<rparr>] 100
                    ''Snowball (Smallest Balance First)'')))"
    by (simp add: simulate_def simulate_with_def Let_def)
  have m: "3 \<le> months (snd (projr (simulate
              [\<lparr>name = ''Loan'', balance = 300, apr_pct = 12, min_pay = 100\<rparr>] 100
              ''Snowball (Smallest Balance First)'')))"
    by code_simp
  show ?thesis
    using balances_never_negative[OF e m, of 0] by simp
qed

subsection \<open>Payoff months are final\<close>

lemma state_after_lengths:
  assumes "valid_input ds b"
  shows "length (debts (state_after ds b st k)) = length ds"
    and "length (paid_off_month (state_after ds b st k)) = length ds"
  using length_debts_state_after[OF assms, of st k] state_ok_after[OF assms, of st k]
  by (simp_all add: state_ok_def)

lemma paid_stays_step:
  assumes "state_ok b s" and "i < length (debts s)" and "paid_off_month s ! i = Some m"
  shows "paid_off_month (month_step b ord s) ! i = Some m"
proof -
  have len: "length (paid_off_month s) = length (debts s)" using assms(1) by (simp add: state_ok_def)
  show ?thesis using assms(3) by (simp add: month_step_at(5)[OF len assms(2)])
qed

lemma paid_stays_after:
  assumes "valid_input ds b" and "i < length ds"
    and "paid_off_month (state_after ds b st k) ! i = Some m"
  shows "paid_off_month (state_after ds b st (k + d)) ! i = Some m"
proof (induction d)
  case 0
  show ?case using assms(3) by simp
next
  case (Suc d)
  have "i < length (debts (state_after ds b st (k + d)))"
    using assms(2) state_after_lengths(1)[OF assms(1)] by simp
  then show ?case
    using paid_stays_step[OF state_ok_after[OF assms(1)] _ Suc] by (simp add: state_after_Suc)
qed

lemma paid_balance_zero:
  assumes "valid_input ds b" and "i < length ds"
    and "paid_off_month (state_after ds b st k) ! i = Some m"
  shows "balance (debts (state_after ds b st k) ! i) = 0"
  using state_ok_after[OF assms(1), of st k] assms(2,3) state_after_lengths(1)[OF assms(1), of st k]
  by (simp add: state_ok_def)

lemma paid_month_bound:
  assumes "valid_input ds b" and "i < length ds"
  shows "paid_off_month (state_after ds b st k) ! i = Some m \<Longrightarrow> 1 \<le> m \<and> m \<le> k"
proof (induction k)
  case 0
  then show ?case using assms(2) by (simp add: state_after_def init_state_def)
next
  case (Suc k)
  let ?s = "state_after ds b st k"
  have len: "length (paid_off_month ?s) = length (debts ?s)"
    and i: "i < length (debts ?s)"
    using state_after_lengths[OF assms(1), of st k] assms(2) by simp_all
  show ?case
  proof (cases "paid_off_month ?s ! i = None")
    case True
    then have "m = k + 1"
      using Suc.prems by (simp add: state_after_Suc month_step_at(5)[OF len i] split: if_splits)
    then show ?thesis by simp
  next
    case False
    then have "paid_off_month ?s ! i = Some m"
      using Suc.prems by (auto simp: state_after_Suc month_step_at(5)[OF len i] split: if_splits)
    then show ?thesis using Suc.IH by simp
  qed
qed

lemma zero_balance_month:
  assumes "month_parts b ord ds = (ds2, ps, rb, ints)" and "i < length ds"
    and "balance (ds ! i) = 0"
  shows "ints ! i = 0" and "ps ! i = 0" and "balance (ds2 ! i) = 0"
    and "target ord (after_minimums ds) \<noteq> Some i"
proof -
  note n = month_parts_nth[OF assms(1,2)]
  have am: "balance (after_minimums ds ! i) = 0"
    using assms(2,3) by (simp add: pay_amount_def)
  show t: "target ord (after_minimums ds) \<noteq> Some i"
    using target_SomeD(2)[of ord "after_minimums ds" i] am by auto
  then have ex: "extra_paid b ord ds i = 0" by (simp add: extra_paid_def)
  show "ints ! i = 0" using n(6) assms(3) by (simp add: accrue_def)
  show "ps ! i = 0" using n(5) ex assms(3) by (simp add: pay_amount_def)
  show "balance (ds2 ! i) = 0" using n(4) ex am by simp
qed

text \<open>
  C5. Once the month paid off of a debt is set (to a month number between 1 and the
  current month), it keeps that value in every later state of the loop, and in every
  such state the debt's balance is exactly 0; in each following month no interest
  accrues on the debt, nothing is paid to it, and its balance stays 0.
\<close>

theorem payoff_month_is_final:
  assumes "simulate debts_in monthly_budget strategy = Inr (rws, res)"
    and "i < length debts_in" and "k \<le> j" and "j \<le> months res"
    and "paid_off_month (state_after debts_in monthly_budget strategy k) ! i = Some m"
  shows "1 \<le> m \<and> m \<le> k
         \<and> paid_off_month (state_after debts_in monthly_budget strategy j) ! i = Some m
         \<and> balance (debts (state_after debts_in monthly_budget strategy j) ! i) = 0
         \<and> (\<forall>ds2 ps rb ints.
               month_parts monthly_budget (order_debts debts_in strategy)
                 (debts (state_after debts_in monthly_budget strategy j)) = (ds2, ps, rb, ints)
               \<longrightarrow> ints ! i = 0 \<and> ps ! i = 0 \<and> balance (ds2 ! i) = 0)"
proof -
  have v: "valid_input debts_in monthly_budget" using assms(1) by (rule simulate_Inr_valid)
  have b: "1 \<le> m \<and> m \<le> k" using paid_month_bound[OF v assms(2,5)] .
  have "paid_off_month (state_after debts_in monthly_budget strategy (k + (j - k))) ! i = Some m"
    using paid_stays_after[OF v assms(2,5)] .
  then have p: "paid_off_month (state_after debts_in monthly_budget strategy j) ! i = Some m"
    using assms(3) by simp
  have z: "balance (debts (state_after debts_in monthly_budget strategy j) ! i) = 0"
    using paid_balance_zero[OF v assms(2) p] .
  have i: "i < length (debts (state_after debts_in monthly_budget strategy j))"
    using assms(2) state_after_lengths(1)[OF v] by simp
  show ?thesis
    using b p z zero_balance_month(1-3)[OF _ i z] by blast
qed

theorem payoff_month_is_final_witness:
  "paid_off_month (state_after
       [\<lparr>name = ''A'', balance = 50, apr_pct = 0, min_pay = 10\<rparr>,
        \<lparr>name = ''B'', balance = 300, apr_pct = 0, min_pay = 10\<rparr>] 100
       ''Snowball (Smallest Balance First)'' 3) ! 0 = Some 1
   \<and> balance (debts (state_after
       [\<lparr>name = ''A'', balance = 50, apr_pct = 0, min_pay = 10\<rparr>,
        \<lparr>name = ''B'', balance = 300, apr_pct = 0, min_pay = 10\<rparr>] 100
       ''Snowball (Smallest Balance First)'' 3) ! 0) = 0"
proof -
  let ?D = "[\<lparr>name = ''A'', balance = 50, apr_pct = 0, min_pay = 10\<rparr>,
             \<lparr>name = ''B'', balance = 300, apr_pct = 0, min_pay = 10\<rparr>]"
  let ?S = "''Snowball (Smallest Balance First)''"
  have e: "simulate ?D 100 ?S
           = Inr (fst (projr (simulate ?D 100 ?S)), snd (projr (simulate ?D 100 ?S)))"
    by (simp add: simulate_def simulate_with_def Let_def)
  have m: "3 \<le> months (snd (projr (simulate ?D 100 ?S)))"
    by code_simp
  have p: "paid_off_month (state_after ?D 100 ?S 1) ! 0 = Some 1"
    by code_simp
  have i: "0 < length ?D" by simp
  have kj: "(1::nat) \<le> 3" by simp
  show ?thesis
    using payoff_month_is_final[OF e i kj m p] by simp
qed

subsection \<open>Unset payoff months and unpaid debts\<close>

lemma unpaid_count_pos_iff:
  "0 < unpaid_count ds \<longleftrightarrow> (\<exists>i<length ds. 0.005 < balance (ds ! i))"
proof -
  have "0 < unpaid_count ds \<longleftrightarrow> (\<exists>d\<in>set ds. 0.005 < balance d)"
    by (simp add: unpaid_count_def filter_empty_conv)
  also have "\<dots> \<longleftrightarrow> (\<exists>i<length ds. 0.005 < balance (ds ! i))"
    by (metis in_set_conv_nth)
  finally show ?thesis .
qed

lemma marked_after_step:
  assumes "length (paid_off_month s) = length (debts s)" and "i < length (debts s)"
    and "balance (debts (month_step b ord s) ! i) \<le> 0.005"
  shows "paid_off_month (month_step b ord s) ! i \<noteq> None"
  using assms(3)
  by (auto simp: month_step_at(4,5)[OF assms(1,2)] split: if_splits)

lemma unset_iff_unpaid:
  assumes "valid_input ds b" and "i < length ds" and "0 < k"
  shows "(paid_off_month (state_after ds b st k) ! i = None)
           = (0.005 < balance (debts (state_after ds b st k) ! i))"
proof -
  obtain k' where k: "k = Suc k'" using assms(3) by (cases k) auto
  let ?s = "state_after ds b st k'"
  have len: "length (paid_off_month ?s) = length (debts ?s)" and i: "i < length (debts ?s)"
    using state_after_lengths[OF assms(1), of st k'] assms(2) by simp_all
  have a: "balance (debts (state_after ds b st k) ! i) \<le> 0.005
           \<Longrightarrow> paid_off_month (state_after ds b st k) ! i \<noteq> None"
    using marked_after_step[OF len i, of b "order_debts ds st"] by (simp add: k state_after_Suc)
  have "paid_off_month (state_after ds b st k) ! i \<noteq> None
        \<Longrightarrow> balance (debts (state_after ds b st k) ! i) = 0"
    using paid_balance_zero[OF assms(1,2), of st k] by auto
  with a show ?thesis by fastforce
qed

subsection \<open>The returned mapping of payoff months\<close>

lemma map_of_name_dict:
  "map_of (name_dict acc dps) k =
     (case map_of (rev (map (\<lambda>(d, p). (name d, p)) dps)) k of
        None \<Rightarrow> map_of acc k
      | Some v \<Rightarrow> Some v)"
  by (induction acc dps rule: name_dict.induct)
     (auto simp: update_conv' map_add_def split: option.splits)

lemma keys_name_dict:
  "fst ` set (name_dict acc dps) = fst ` set acc \<union> (\<lambda>(d, p). name d) ` set dps"
  by (induction acc dps rule: name_dict.induct) (auto simp: dom_update)

lemma distinct_name_dict:
  "distinct (map fst acc) \<Longrightarrow> distinct (map fst (name_dict acc dps))"
  by (induction acc dps rule: name_dict.induct) (simp_all add: distinct_update)

lemma map_of_rev_last:
  assumes "i < length xs"
    and "\<forall>j<length xs. i < j \<longrightarrow> fst (xs ! j) \<noteq> fst (xs ! i)"
  shows "map_of (rev xs) (fst (xs ! i)) = Some (snd (xs ! i))"
  using assms
proof (induction xs arbitrary: i)
  case Nil
  then show ?case by simp
next
  case (Cons x xs)
  show ?case
  proof (cases i)
    case 0
    have "fst x \<notin> fst ` set xs"
    proof
      assume "fst x \<in> fst ` set xs"
      then obtain j where "j < length xs" "fst (xs ! j) = fst x"
        by (auto simp: in_set_conv_nth)
      then show False using Cons.prems(2) 0 by (auto dest: spec[of _ "Suc j"])
    qed
    then have "map_of (rev xs) (fst x) = None"
      by (simp add: map_of_eq_None_iff)
    then show ?thesis using 0 by (simp add: map_add_def)
  next
    case (Suc i')
    have a: "i' < length xs" using Cons.prems(1) Suc by simp
    have b: "\<forall>j<length xs. i' < j \<longrightarrow> fst (xs ! j) \<noteq> fst (xs ! i')"
      using Cons.prems(2) Suc by (auto dest: spec[of _ "Suc j" for j])
    show ?thesis using Cons.IH[OF a b] Suc by (simp add: map_add_def)
  qed
qed


lemma result_entry:
  assumes "simulate ds b st = Inr (rws, res)" and "i < length ds"
    and "\<forall>j<length ds. i < j \<longrightarrow> name (ds ! j) \<noteq> name (ds ! i)"
  shows "map_of (paid_off_months res) (name (ds ! i))
           = Some (paid_off_month (state_after ds b st (months res)) ! i)"
proof -
  define s where "s = state_after ds b st (months res)"
  define xs where "xs = map (\<lambda>(d, p). (name d, p)) (zip (debts s) (paid_off_month s))"
  have v: "valid_input ds b" using assms(1) by (rule simulate_Inr_valid)
  have l: "length (debts s) = length ds" "length (paid_off_month s) = length ds"
    using state_after_lengths[OF v] by (simp_all add: s_def)
  have n: "name (debts s ! j) = name (ds ! j)" if "j < length ds" for j
    using field_state_after_nth(2)[OF v that] by (simp add: s_def)
  have lx: "length xs = length ds" using l by (simp add: xs_def)
  have fx: "fst (xs ! j) = name (ds ! j)" if "j < length ds" for j
    using that l n by (simp add: xs_def)
  have sx: "snd (xs ! i) = paid_off_month s ! i" using assms(2) l by (simp add: xs_def)
  have c: "i < length xs" using assms(2) lx by simp
  have h: "\<forall>j<length xs. i < j \<longrightarrow> fst (xs ! j) \<noteq> fst (xs ! i)"
    using assms(2,3) fx lx by simp
  have "map_of (rev xs) (fst (xs ! i)) = Some (snd (xs ! i))"
    using c h by (rule map_of_rev_last)
  then have "map_of (rev xs) (name (ds ! i)) = Some (paid_off_month s ! i)"
    by (simp only: fx[OF assms(2)] sx)
  moreover have "paid_off_months res = name_dict [] (zip (debts s) (paid_off_month s))"
    using simulate_Inr(4)[OF assms(1)] by (simp add: s_def)
  ultimately show ?thesis
    by (simp add: map_of_name_dict xs_def s_def)
qed

text \<open>
  C9, as stated, fails: of two debts that are both named A, the first is paid off in
  month 1 and the second in month 2, and the returned mapping has the single entry
  of A with month 2. The payoff month of the first debt is lost.
\<close>

theorem duplicate_names_counterexample:
  "paid_off_months (snd (projr (simulate
      [\<lparr>name = ''A'', balance = 0, apr_pct = 12, min_pay = 0\<rparr>,
       \<lparr>name = ''A'', balance = 150, apr_pct = 0, min_pay = 10\<rparr>] 100
      ''Snowball (Smallest Balance First)''))) = [(''A'', Some 2)]
   \<and> paid_off_month (state_after
      [\<lparr>name = ''A'', balance = 0, apr_pct = 12, min_pay = 0\<rparr>,
       \<lparr>name = ''A'', balance = 150, apr_pct = 0, min_pay = 10\<rparr>] 100
      ''Snowball (Smallest Balance First)'' 2) = [Some 1, Some 2]"
  by code_simp

text \<open>
  C9, amended. The returned mapping is keyed by debt name alone; there is no fallback
  to the position. It has one entry for each name that occurs, and a name maps to the
  month paid off of the last debt that carries it. So the payoff month of a debt is
  kept exactly when no later debt has the same name; with duplicate names the earlier
  debt's month is overwritten.
\<close>

theorem paid_off_mapping_keyed_by_name:
  assumes "simulate debts_in monthly_budget strategy = Inr (rws, res)"
  shows "fst ` set (paid_off_months res) = name ` set debts_in
         \<and> distinct (map fst (paid_off_months res))
         \<and> (\<forall>i<length debts_in.
               (\<forall>j<length debts_in. i < j \<longrightarrow> name (debts_in ! j) \<noteq> name (debts_in ! i))
               \<longrightarrow> map_of (paid_off_months res) (name (debts_in ! i))
                     = Some (paid_off_month
                               (state_after debts_in monthly_budget strategy (months res)) ! i))"
proof -
  let ?s = "state_after debts_in monthly_budget strategy (months res)"
  have v: "valid_input debts_in monthly_budget" using assms by (rule simulate_Inr_valid)
  have l: "length (debts ?s) = length debts_in" "length (paid_off_month ?s) = length debts_in"
    using state_after_lengths[OF v] by simp_all
  have "(\<lambda>(d, p). name d) ` set (zip (debts ?s) (paid_off_month ?s)) = name ` set (debts ?s)"
  proof -
    have "map fst (zip (debts ?s) (paid_off_month ?s)) = debts ?s" using l by simp
    then have "fst ` set (zip (debts ?s) (paid_off_month ?s)) = set (debts ?s)"
      by (metis set_map)
    then have "name ` fst ` set (zip (debts ?s) (paid_off_month ?s)) = name ` set (debts ?s)"
      by simp
    then show ?thesis by (simp add: image_image case_prod_unfold)
  qed
  also have "\<dots> = set (map name (debts ?s))" by simp
  also have "\<dots> = name ` set debts_in" by (simp only: fields_state_after(2)[OF v] set_map)
  finally have k: "fst ` set (paid_off_months res) = name ` set debts_in"
    by (simp add: simulate_Inr(4)[OF assms] keys_name_dict)
  have d: "distinct (map fst (paid_off_months res))"
    by (simp add: simulate_Inr(4)[OF assms] distinct_name_dict)
  show ?thesis using k d result_entry[OF assms] by blast
qed

theorem paid_off_mapping_keyed_by_name_witness:
  "map_of (paid_off_months (snd (projr (simulate
      [\<lparr>name = ''A'', balance = 0, apr_pct = 12, min_pay = 0\<rparr>,
       \<lparr>name = ''A'', balance = 150, apr_pct = 0, min_pay = 10\<rparr>] 100
      ''Snowball (Smallest Balance First)'')))) ''A''
   = Some (paid_off_month (state_after
      [\<lparr>name = ''A'', balance = 0, apr_pct = 12, min_pay = 0\<rparr>,
       \<lparr>name = ''A'', balance = 150, apr_pct = 0, min_pay = 10\<rparr>] 100
      ''Snowball (Smallest Balance First)'' 2) ! 1)"
proof -
  let ?D = "[\<lparr>name = ''A'', balance = 0, apr_pct = 12, min_pay = 0\<rparr>,
             \<lparr>name = ''A'', balance = 150, apr_pct = 0, min_pay = 10\<rparr>]"
  let ?S = "''Snowball (Smallest Balance First)''"
  have e: "simulate ?D 100 ?S
           = Inr (fst (projr (simulate ?D 100 ?S)), snd (projr (simulate ?D 100 ?S)))"
    by (simp add: simulate_def simulate_with_def Let_def)
  have m: "months (snd (projr (simulate ?D 100 ?S))) = 2"
    by code_simp
  have "1 < length ?D \<longrightarrow>
          (\<forall>j<length ?D. 1 < j \<longrightarrow> name (?D ! j) \<noteq> name (?D ! 1))
          \<longrightarrow> map_of (paid_off_months (snd (projr (simulate ?D 100 ?S)))) (name (?D ! 1))
                = Some (paid_off_month (state_after ?D 100 ?S
                          (months (snd (projr (simulate ?D 100 ?S))))) ! 1)"
    using paid_off_mapping_keyed_by_name[OF e, THEN conjunct2, THEN conjunct2, THEN spec, of 1] .
  then show ?thesis by (simp add: m)
qed

subsection \<open>Reaching the horizon\<close>

text \<open>
  C1, amended. The result of \<open>simulate\<close> has the three entries \<open>months\<close>,
  \<open>total_interest\<close> and \<open>paid_off_months\<close> and no flag for convergence. When the loop
  ends with a debt still above 0.005, the returned \<open>months\<close> is 1200 and there are 1200
  snapshots; and in the returned \<open>paid_off_months\<close>, the name of a debt that no later
  debt shares is mapped to unset exactly when that debt is still above 0.005. So the
  caller is left to read a run that exhausts the horizon off \<open>months = 1200\<close> and the
  unset entries, and only for debts whose entry is not overwritten by a later debt
  of the same name.
\<close>

theorem horizon_reported_by_unset_months:
  assumes "simulate debts_in monthly_budget strategy = Inr (rws, res)"
    and "i < length debts_in"
    and "0.005 < balance (debts (state_after debts_in monthly_budget strategy (months res)) ! i)"
  shows "months res = 1200
         \<and> length rws = 1200
         \<and> (\<forall>j<length debts_in.
               (\<forall>l<length debts_in. j < l \<longrightarrow> name (debts_in ! l) \<noteq> name (debts_in ! j))
               \<longrightarrow> (map_of (paid_off_months res) (name (debts_in ! j)) = Some None)
                   = (0.005 < balance (debts (state_after debts_in monthly_budget strategy
                                                (months res)) ! j)))"
proof -
  have v: "valid_input debts_in monthly_budget" using assms(1) by (rule simulate_Inr_valid)
  define s where "s = state_after debts_in monthly_budget strategy (months res)"
  have l: "length (debts s) = length debts_in"
    using state_after_lengths(1)[OF v] by (simp add: s_def)
  have n: "\<not> loop_cond s" using simulate_Inr(6)[OF assms(1)] by (simp add: s_def)
  have ms: "month s = months res" by (simp add: s_def)
  have u: "0 < unpaid_count (debts s)"
    using assms(2,3) l unfolding unpaid_count_pos_iff s_def by auto
  have m: "months res = 1200"
    using n u ms months_le_horizon[OF assms(1)] by (simp add: loop_cond_def)
  have r: "length rws = 1200"
    using simulate_Inr(2)[OF assms(1)]
      rows_state_after[of debts_in monthly_budget strategy "months res"] m by simp
  have e: "(map_of (paid_off_months res) (name (debts_in ! j)) = Some None)
             = (0.005 < balance (debts s ! j))"
    if j: "j < length debts_in"
      and d: "\<forall>l<length debts_in. j < l \<longrightarrow> name (debts_in ! l) \<noteq> name (debts_in ! j)"
    for j
  proof -
    have "map_of (paid_off_months res) (name (debts_in ! j)) = Some (paid_off_month s ! j)"
      using result_entry[OF assms(1) j d] by (simp add: s_def)
    moreover have "(paid_off_month s ! j = None) = (0.005 < balance (debts s ! j))"
      using unset_iff_unpaid[OF v j, of "months res" strategy] m by (simp add: s_def)
    ultimately show ?thesis by simp
  qed
  show ?thesis using m r e unfolding s_def by blast
qed

text \<open>A run that never pays off: one debt of 2000 at 0 percent and a budget of 1.\<close>

lemma lone_debt_step:
  assumes "debts s = [d]" and "paid_off_month s = [None]"
    and "apr_pct d = 0" and "min_pay d = 0" and "1.005 < balance d"
  shows "debts (month_step 1 [0] s) = [d\<lparr>balance := balance d - 1\<rparr>]"
    and "paid_off_month (month_step 1 [0] s) = [None]"
    and "total_interest (month_step 1 [0] s) = total_interest s"
  using assms
  by (simp_all add: month_step_def month_parts_def accrue_def monthly_rate_def waterfall_def
        mark_payoff_def Let_def)

lemma lone_debt_state:
  assumes "k \<le> 1200"
  shows "debts (state_after [\<lparr>name = ''A'', balance = 2000, apr_pct = 0, min_pay = 0\<rparr>] 1
                  ''Snowball (Smallest Balance First)'' k)
           = [\<lparr>name = ''A'', balance = 2000 - real k, apr_pct = 0, min_pay = 0\<rparr>]
         \<and> paid_off_month (state_after [\<lparr>name = ''A'', balance = 2000, apr_pct = 0, min_pay = 0\<rparr>] 1
                  ''Snowball (Smallest Balance First)'' k) = [None]
         \<and> total_interest (state_after [\<lparr>name = ''A'', balance = 2000, apr_pct = 0, min_pay = 0\<rparr>] 1
                  ''Snowball (Smallest Balance First)'' k) = 0"
  using assms
proof (induction k)
  case 0
  show ?case by (simp add: state_after_def init_state_def)
next
  case (Suc k)
  let ?D = "[\<lparr>name = ''A'', balance = 2000, apr_pct = 0, min_pay = 0\<rparr>]"
  let ?S = "''Snowball (Smallest Balance First)''"
  let ?d = "\<lparr>name = ''A'', balance = 2000 - real k, apr_pct = 0, min_pay = 0\<rparr>"
  have o: "order_debts ?D ?S = [0]" by (simp add: order_debts_def startswith_def)
  have ih: "debts (state_after ?D 1 ?S k) = [?d]"
    "paid_off_month (state_after ?D 1 ?S k) = [None]"
    "total_interest (state_after ?D 1 ?S k) = 0"
    using Suc by simp_all
  have big: "1.005 < balance ?d" using Suc.prems by simp
  have a: "apr_pct ?d = 0" "min_pay ?d = 0" by simp_all
  note st = lone_debt_step[OF ih(1,2) a big]
  show ?case using st ih(3) by (simp add: state_after_Suc o)
qed

lemma lone_debt_result:
  "simulate [\<lparr>name = ''A'', balance = 2000, apr_pct = 0, min_pay = 0\<rparr>] 1
     ''Snowball (Smallest Balance First)''
   = Inr (rows (state_after [\<lparr>name = ''A'', balance = 2000, apr_pct = 0, min_pay = 0\<rparr>] 1
                  ''Snowball (Smallest Balance First)'' 1200),
          \<lparr>months = 1200, result_total_interest = 0, paid_off_months = [(''A'', None)]\<rparr>)"
proof -
  let ?D = "[\<lparr>name = ''A'', balance = 2000, apr_pct = 0, min_pay = 0\<rparr>]"
  let ?S = "''Snowball (Smallest Balance First)''"
  have v: "valid_input ?D 1" by (simp add: valid_input_def)
  from simulate_valid[OF v, of ?S] obtain k where k:
    "simulate ?D 1 ?S =
       Inr (rows (state_after ?D 1 ?S k),
            \<lparr>months = k,
             result_total_interest = round2 (total_interest (state_after ?D 1 ?S k)),
             paid_off_months = name_dict [] (zip (debts (state_after ?D 1 ?S k))
                                                (paid_off_month (state_after ?D 1 ?S k)))\<rparr>)"
    "\<forall>j<k. loop_cond (state_after ?D 1 ?S j)"
    "\<not> loop_cond (state_after ?D 1 ?S k)" by blast
  have "\<not> k < 1200"
  proof
    assume l: "k < 1200"
    then have "loop_cond (state_after ?D 1 ?S k)"
      using lone_debt_state[of k] by (simp add: loop_cond_def unpaid_count_def)
    with k(3) show False by simp
  qed
  moreover have "\<not> 1200 < k"
  proof
    assume "1200 < k"
    then have "loop_cond (state_after ?D 1 ?S 1200)" using k(2) by blast
    then show False by (simp add: loop_cond_def)
  qed
  ultimately have e: "k = 1200" by simp
  have r0: "round2 0 = 0" by (simp add: round2_def round_half_even_def)
  show ?thesis
    using k(1) lone_debt_state[of 1200] by (simp add: e r0)
qed

text \<open>
  C1, as stated, fails: one debt of 2000 at 0 percent with a budget of 1 still owes 800
  after 1200 months, and the whole result is \<open>months = 1200\<close>, a total interest of 0 and
  an unset month paid off. It has no entry that says whether the run converged.
\<close>

theorem horizon_without_flag_counterexample:
  "snd (projr (simulate [\<lparr>name = ''A'', balance = 2000, apr_pct = 0, min_pay = 0\<rparr>] 1
                 ''Snowball (Smallest Balance First)''))
     = \<lparr>months = 1200, result_total_interest = 0, paid_off_months = [(''A'', None)]\<rparr>
   \<and> debts (state_after [\<lparr>name = ''A'', balance = 2000, apr_pct = 0, min_pay = 0\<rparr>] 1
              ''Snowball (Smallest Balance First)'' 1200)
     = [\<lparr>name = ''A'', balance = 800, apr_pct = 0, min_pay = 0\<rparr>]"
  using lone_debt_result lone_debt_state[of 1200] by simp

theorem horizon_reported_by_unset_months_witness:
  "months (snd (projr (simulate [\<lparr>name = ''A'', balance = 2000, apr_pct = 0, min_pay = 0\<rparr>] 1
                         ''Snowball (Smallest Balance First)''))) = 1200
   \<and> length (fst (projr (simulate [\<lparr>name = ''A'', balance = 2000, apr_pct = 0, min_pay = 0\<rparr>] 1
                         ''Snowball (Smallest Balance First)''))) = 1200
   \<and> map_of (paid_off_months (snd (projr (simulate
         [\<lparr>name = ''A'', balance = 2000, apr_pct = 0, min_pay = 0\<rparr>] 1
         ''Snowball (Smallest Balance First)'')))) ''A'' = Some None"
proof -
  let ?D = "[\<lparr>name = ''A'', balance = 2000, apr_pct = 0, min_pay = 0\<rparr>]"
  let ?S = "''Snowball (Smallest Balance First)''"
  let ?res = "snd (projr (simulate ?D 1 ?S))"
  have e: "simulate ?D 1 ?S = Inr (fst (projr (simulate ?D 1 ?S)), ?res)"
    by (simp add: lone_debt_result)
  have i: "0 < length ?D" by simp
  have m: "months ?res = 1200" by (simp add: lone_debt_result)
  have u: "0.005 < balance (debts (state_after ?D 1 ?S (months ?res)) ! 0)"
    using lone_debt_state[of 1200] by (simp add: m)
  note h = horizon_reported_by_unset_months[OF e i u]
  have a: "months ?res = 1200" and b: "length (fst (projr (simulate ?D 1 ?S))) = 1200"
    using h by simp_all
  have "(\<forall>l<length ?D. 0 < l \<longrightarrow> name (?D ! l) \<noteq> name (?D ! 0))
        \<longrightarrow> (map_of (paid_off_months ?res) (name (?D ! 0)) = Some None)
            = (0.005 < balance (debts (state_after ?D 1 ?S (months ?res)) ! 0))"
    using h[THEN conjunct2, THEN conjunct2, THEN spec, of 0] by simp
  then have c: "map_of (paid_off_months ?res) ''A'' = Some None"
    using u by simp
  show ?thesis using a b c by simp
qed

subsection \<open>A debt that starts at zero\<close>

lemma zero_start_state:
  assumes "valid_input ds b" and "i < length ds" and "balance (ds ! i) = 0"
  shows "balance (debts (state_after ds b st k) ! i) = 0
         \<and> paid_off_month (state_after ds b st k) ! i = (if k = 0 then None else Some 1)"
proof (induction k)
  case 0
  show ?case using assms(2,3) by (simp add: state_after_def init_state_def)
next
  case (Suc k)
  let ?s = "state_after ds b st k"
  have len: "length (paid_off_month ?s) = length (debts ?s)" and i: "i < length (debts ?s)"
    using state_after_lengths[OF assms(1), of st k] assms(2) by simp_all
  have z: "balance (debts ?s ! i) = 0" using Suc by simp
  have am: "balance (after_minimums (debts ?s) ! i) = 0"
    using i z by (simp add: pay_amount_def)
  have ex: "extra_paid b (order_debts ds st) (debts ?s) i = 0"
    using extra_paid_bounds(3)[of b "order_debts ds st" "debts ?s" i] am by auto
  show ?case
    using Suc am ex
    by (simp add: state_after_Suc month_step_at(4,5)[OF len i])
qed

text \<open>
  C7, as stated, fails: a debt whose balance is 0 at the start gets the month paid off
  1, the first simulated month, and not 0.
\<close>

theorem zero_balance_debt_counterexample:
  "paid_off_months (snd (projr (simulate
      [\<lparr>name = ''A'', balance = 0, apr_pct = 12, min_pay = 0\<rparr>,
       \<lparr>name = ''B'', balance = 150, apr_pct = 0, min_pay = 10\<rparr>] 100
      ''Snowball (Smallest Balance First)''))) = [(''A'', Some 1), (''B'', Some 2)]"
  by code_simp

text \<open>
  C7, amended. A debt whose balance is 0 at the start keeps the balance 0 in every
  state of the loop; in every month it accrues no interest, receives no payment and is
  not the debt the waterfall stops at. Its month paid off is unset before the first
  month and 1 from the first simulated month on; so the result records month 1 for it
  when a month was simulated and leaves it unset when none was (stated for a debt
  whose name no later debt shares).
\<close>

theorem zero_balance_debt_paid_in_first_month:
  assumes "simulate debts_in monthly_budget strategy = Inr (rws, res)"
    and "i < length debts_in" and "balance (debts_in ! i) = 0" and "k \<le> months res"
  shows "balance (debts (state_after debts_in monthly_budget strategy k) ! i) = 0
         \<and> paid_off_month (state_after debts_in monthly_budget strategy k) ! i
             = (if k = 0 then None else Some 1)
         \<and> (\<forall>ds2 ps rb ints.
               month_parts monthly_budget (order_debts debts_in strategy)
                 (debts (state_after debts_in monthly_budget strategy k)) = (ds2, ps, rb, ints)
               \<longrightarrow> ints ! i = 0 \<and> ps ! i = 0
                   \<and> target (order_debts debts_in strategy)
                        (after_minimums (debts (state_after debts_in monthly_budget strategy k)))
                       \<noteq> Some i)
         \<and> ((\<forall>j<length debts_in. i < j \<longrightarrow> name (debts_in ! j) \<noteq> name (debts_in ! i))
              \<longrightarrow> map_of (paid_off_months res) (name (debts_in ! i))
                    = Some (if months res = 0 then None else Some 1))"
proof -
  have v: "valid_input debts_in monthly_budget" using assms(1) by (rule simulate_Inr_valid)
  note z = zero_start_state[OF v assms(2,3), of strategy]
  have i: "i < length (debts (state_after debts_in monthly_budget strategy k))"
    using assms(2) state_after_lengths(1)[OF v] by simp
  have zk: "balance (debts (state_after debts_in monthly_budget strategy k) ! i) = 0"
    using z[of k] by simp
  have a: "\<forall>ds2 ps rb ints.
             month_parts monthly_budget (order_debts debts_in strategy)
               (debts (state_after debts_in monthly_budget strategy k)) = (ds2, ps, rb, ints)
             \<longrightarrow> ints ! i = 0 \<and> ps ! i = 0
                 \<and> target (order_debts debts_in strategy)
                      (after_minimums (debts (state_after debts_in monthly_budget strategy k)))
                     \<noteq> Some i"
    using zero_balance_month(1,2,4)[OF _ i zk] by blast
  have r: "(\<forall>j<length debts_in. i < j \<longrightarrow> name (debts_in ! j) \<noteq> name (debts_in ! i))
              \<longrightarrow> map_of (paid_off_months res) (name (debts_in ! i))
                    = Some (if months res = 0 then None else Some 1)"
    using result_entry[OF assms(1,2)] z[of "months res"] by simp
  show ?thesis using z[of k] a r by blast
qed

theorem zero_balance_debt_paid_in_first_month_witness:
  "balance (debts (state_after
      [\<lparr>name = ''A'', balance = 0, apr_pct = 12, min_pay = 0\<rparr>,
       \<lparr>name = ''B'', balance = 150, apr_pct = 0, min_pay = 10\<rparr>] 100
      ''Snowball (Smallest Balance First)'' 2) ! 0) = 0
   \<and> paid_off_month (state_after
      [\<lparr>name = ''A'', balance = 0, apr_pct = 12, min_pay = 0\<rparr>,
       \<lparr>name = ''B'', balance = 150, apr_pct = 0, min_pay = 10\<rparr>] 100
      ''Snowball (Smallest Balance First)'' 2) ! 0 = Some 1"
proof -
  let ?D = "[\<lparr>name = ''A'', balance = 0, apr_pct = 12, min_pay = 0\<rparr>,
             \<lparr>name = ''B'', balance = 150, apr_pct = 0, min_pay = 10\<rparr>]"
  let ?S = "''Snowball (Smallest Balance First)''"
  have e: "simulate ?D 100 ?S
           = Inr (fst (projr (simulate ?D 100 ?S)), snd (projr (simulate ?D 100 ?S)))"
    by (simp add: simulate_def simulate_with_def Let_def)
  have m: "2 \<le> months (snd (projr (simulate ?D 100 ?S)))"
    by code_simp
  have i: "0 < length ?D" by simp
  have z: "balance (?D ! 0) = 0" by simp
  show ?thesis
    using zero_balance_debt_paid_in_first_month[OF e i z m] by simp
qed

subsection \<open>The budget of a month\<close>

lemma set_order_debts: "set (order_debts ds st) = {0..<length ds}"
  by (simp add: order_debts_def)

lemma sum_list_update_add:
  "t < length xs \<Longrightarrow> sum_list (xs[t := xs ! t + e]) = sum_list xs + (e::real)"
  by (induction xs arbitrary: t) (auto split: nat.splits)

lemma waterfall_conservation:
  assumes "waterfall ord ds ps rb = (ds', ps', rb')"
    and "\<And>t. target ord ds = Some t \<Longrightarrow> t < length ps"
  shows "sum_list ps' + rb' = sum_list ps + rb"
proof (cases "if 0 < rb then target ord ds else None")
  case None
  then show ?thesis using assms(1) by (simp add: waterfall_eq)
next
  case (Some t)
  then have t: "target ord ds = Some t" by (simp split: if_splits)
  have "ps' = ps[t := ps ! t + min rb (balance (ds ! t))]"
    and "rb' = rb - min rb (balance (ds ! t))"
    using assms(1) Some by (simp_all add: waterfall_eq)
  then show ?thesis using sum_list_update_add[OF assms(2)[OF t]] by simp
qed

lemma month_parts_conservation:
  assumes "month_parts b ord ds = (ds2, ps, rb, ints)" and "set ord \<subseteq> {0..<length ds}"
  shows "sum_list ps + rb = b"
    and "rb = budget_after_minimums b ds
               - (case target ord (after_minimums ds) of
                    None \<Rightarrow> 0 | Some t \<Rightarrow> extra_paid b ord ds t)"
proof -
  define ps1 where "ps1 = map (\<lambda>d. pay_amount (accrue_debt d)) ds"
  have w: "waterfall ord (after_minimums ds) ps1 (budget_after_minimums b ds) = (ds2, ps, rb)"
    using assms(1)
    by (auto simp: month_parts_eq budget_after_minimums_def ps1_def split: prod.splits)
  have t: "t < length ps1" if "target ord (after_minimums ds) = Some t" for t
    using target_SomeD(1)[OF that] assms(2) by (auto simp: ps1_def)
  have s1: "sum_list ps1 + budget_after_minimums b ds = b"
    by (simp add: budget_after_minimums_def ps1_def)
  show "sum_list ps + rb = b"
    using waterfall_conservation[OF w t] s1 by simp
  show "rb = budget_after_minimums b ds
               - (case target ord (after_minimums ds) of
                    None \<Rightarrow> 0 | Some t \<Rightarrow> extra_paid b ord ds t)"
    using waterfall_remaining[OF w]
    by (auto simp: extra_paid_def split: option.splits if_splits)
qed

lemma budget_after_minimums_nonneg:
  assumes "\<forall>i<length ds. 0 \<le> min_pay (ds ! i)" and "sum_list (map min_pay ds) \<le> b"
  shows "0 \<le> budget_after_minimums b ds"
proof -
  have "pay_amount (accrue_debt d) \<le> min_pay d" if "d \<in> set ds" for d
  proof -
    from that obtain i where "i < length ds" "ds ! i = d" by (auto simp: in_set_conv_nth)
    then have "0 \<le> min_pay (accrue_debt d)" using assms(1) by auto
    then show ?thesis using pay_amount_bounds(2)[of "accrue_debt d"] by simp
  qed
  then have "(\<Sum>d\<leftarrow>ds. pay_amount (accrue_debt d)) \<le> sum_list (map min_pay ds)"
    by (intro sum_list_mono) simp
  then show ?thesis using assms(2) by (simp add: budget_after_minimums_def)
qed


text \<open>
  C6, as stated, fails in its second part: with the debts A of 10 and B of 150 and a
  budget of 100, the first month pays 10 to A and nothing else, because the walk of
  step 3 ends at A; 90 of the budget stay unused although B is unpaid at the end of
  the month.
\<close>

theorem budget_exhausted_counterexample:
  "month_parts 100
     (order_debts [\<lparr>name = ''A'', balance = 10, apr_pct = 0, min_pay = 0\<rparr>,
                   \<lparr>name = ''B'', balance = 150, apr_pct = 0, min_pay = 0\<rparr>]
        ''Snowball (Smallest Balance First)'')
     (debts (state_after [\<lparr>name = ''A'', balance = 10, apr_pct = 0, min_pay = 0\<rparr>,
                          \<lparr>name = ''B'', balance = 150, apr_pct = 0, min_pay = 0\<rparr>] 100
               ''Snowball (Smallest Balance First)'' 0))
   = ([\<lparr>name = ''A'', balance = 0, apr_pct = 0, min_pay = 0\<rparr>,
       \<lparr>name = ''B'', balance = 150, apr_pct = 0, min_pay = 0\<rparr>],
      [10, 0], 90, [0, 0])
   \<and> debts (state_after [\<lparr>name = ''A'', balance = 10, apr_pct = 0, min_pay = 0\<rparr>,
                          \<lparr>name = ''B'', balance = 150, apr_pct = 0, min_pay = 0\<rparr>] 100
               ''Snowball (Smallest Balance First)'' 1)
     = [\<lparr>name = ''A'', balance = 0, apr_pct = 0, min_pay = 0\<rparr>,
        \<lparr>name = ''B'', balance = 150, apr_pct = 0, min_pay = 0\<rparr>]
   \<and> months (snd (projr (simulate
        [\<lparr>name = ''A'', balance = 10, apr_pct = 0, min_pay = 0\<rparr>,
         \<lparr>name = ''B'', balance = 150, apr_pct = 0, min_pay = 0\<rparr>] 100
        ''Snowball (Smallest Balance First)''))) = 3"
  by code_simp

text \<open>
  C6, amended. In every simulated month the payments of the month and the remaining
  budget add up to the monthly budget, and the remaining budget is not negative: the
  payments sum to at most the budget. They sum to exactly the budget whenever the debt
  the waterfall stops at (the first of the order above 0.005 after the minimum
  payments) still has a positive balance after the extra payment. Budget that this one
  debt does not absorb is not passed on to another debt.
\<close>

theorem payments_within_budget:
  assumes "simulate debts_in monthly_budget strategy = Inr (rws, res)"
    and "k < months res"
    and "month_parts monthly_budget (order_debts debts_in strategy)
           (debts (state_after debts_in monthly_budget strategy k)) = (ds2, ps, rb, ints)"
  shows "sum_list ps \<le> monthly_budget
         \<and> sum_list ps + rb = monthly_budget
         \<and> 0 \<le> rb
         \<and> (\<forall>t. target (order_debts debts_in strategy)
                   (after_minimums (debts (state_after debts_in monthly_budget strategy k)))
                  = Some t
                \<and> 0 < balance (ds2 ! t)
                \<longrightarrow> sum_list ps = monthly_budget)"
proof -
  define s where "s = state_after debts_in monthly_budget strategy k"
  define ord where "ord = order_debts debts_in strategy"
  have p: "month_parts monthly_budget ord (debts s) = (ds2, ps, rb, ints)"
    using assms(3) by (simp add: s_def ord_def)
  have v: "valid_input debts_in monthly_budget" using assms(1) by (rule simulate_Inr_valid)
  have ok: "state_ok monthly_budget s" using state_ok_after[OF v] by (simp add: s_def)
  have l: "length (debts s) = length debts_in"
    using state_after_lengths(1)[OF v] by (simp add: s_def)
  have sub: "set ord \<subseteq> {0..<length (debts s)}" by (simp add: ord_def set_order_debts l)
  have c: "sum_list ps + rb = monthly_budget" using month_parts_conservation(1)[OF p sub] .
  have r: "rb = budget_after_minimums monthly_budget (debts s)
               - (case target ord (after_minimums (debts s)) of
                    None \<Rightarrow> 0 | Some t \<Rightarrow> extra_paid monthly_budget ord (debts s) t)"
    using month_parts_conservation(2)[OF p sub] .
  have bam: "0 \<le> budget_after_minimums monthly_budget (debts s)"
    using ok by (intro budget_after_minimums_nonneg) (simp_all add: state_ok_def)
  have ex: "extra_paid monthly_budget ord (debts s) t \<le> budget_after_minimums monthly_budget (debts s)"
    for t using bam by (simp add: extra_paid_def)
  have rb0: "0 \<le> rb" using r ex bam by (simp split: option.splits)
  have full: "sum_list ps = monthly_budget"
    if t: "target ord (after_minimums (debts s)) = Some t" and pos: "0 < balance (ds2 ! t)" for t
  proof -
    have tl: "t < length (debts s)" using target_SomeD(1)[OF t] sub by auto
    have b2: "balance (ds2 ! t) = balance (after_minimums (debts s) ! t)
                                    - extra_paid monthly_budget ord (debts s) t"
      using month_parts_nth(4)[OF p tl] .
    have "rb = 0"
    proof (cases "0 < budget_after_minimums monthly_budget (debts s)")
      case True
      then have "extra_paid monthly_budget ord (debts s) t
                   = min (budget_after_minimums monthly_budget (debts s))
                         (balance (after_minimums (debts s) ! t))"
        using t by (simp add: extra_paid_def)
      then have "extra_paid monthly_budget ord (debts s) t
                   = budget_after_minimums monthly_budget (debts s)"
        using pos b2 by (simp add: min_def split: if_splits)
      then show ?thesis using r t by simp
    next
      case False
      then have "budget_after_minimums monthly_budget (debts s) = 0" using bam by simp
      then show ?thesis using r t by (simp add: extra_paid_def)
    qed
    then show ?thesis using c by simp
  qed
  show ?thesis
    using c rb0 full unfolding s_def ord_def by auto
qed

theorem payments_within_budget_witness:
  "sum_list (fst (snd (month_parts 100
     (order_debts [\<lparr>name = ''A'', balance = 50, apr_pct = 0, min_pay = 10\<rparr>,
                   \<lparr>name = ''B'', balance = 300, apr_pct = 0, min_pay = 10\<rparr>]
        ''Snowball (Smallest Balance First)'')
     (debts (state_after [\<lparr>name = ''A'', balance = 50, apr_pct = 0, min_pay = 10\<rparr>,
                          \<lparr>name = ''B'', balance = 300, apr_pct = 0, min_pay = 10\<rparr>] 100
               ''Snowball (Smallest Balance First)'' 1))))) = 100"
proof -
  let ?D = "[\<lparr>name = ''A'', balance = 50, apr_pct = 0, min_pay = 10\<rparr>,
             \<lparr>name = ''B'', balance = 300, apr_pct = 0, min_pay = 10\<rparr>]"
  let ?S = "''Snowball (Smallest Balance First)''"
  let ?P = "month_parts 100 (order_debts ?D ?S) (debts (state_after ?D 100 ?S 1))"
  have e: "simulate ?D 100 ?S
           = Inr (fst (projr (simulate ?D 100 ?S)), snd (projr (simulate ?D 100 ?S)))"
    by (simp add: simulate_def simulate_with_def Let_def)
  have m: "1 < months (snd (projr (simulate ?D 100 ?S)))"
    by code_simp
  have p: "?P = (fst ?P, fst (snd ?P), fst (snd (snd ?P)), snd (snd (snd ?P)))"
    by simp
  have t: "target (order_debts ?D ?S) (after_minimums (debts (state_after ?D 100 ?S 1))) = Some 1
           \<and> 0 < balance (fst ?P ! 1)"
    by code_simp
  show ?thesis
    using payments_within_budget[OF e m p] t by blast
qed

subsection \<open>The debt that receives the extra payment\<close>

lemma insort_key_lex:
  fixes f :: "nat \<Rightarrow> real"
  assumes "sorted_wrt (\<lambda>a b. f a < f b \<or> (f a = f b \<and> a < b)) ys"
    and "\<forall>y\<in>set ys. x < y"
  shows "sorted_wrt (\<lambda>a b. f a < f b \<or> (f a = f b \<and> a < b)) (insort_key f x ys)"
  using assms
proof (induction ys)
  case Nil
  then show ?case by simp
next
  case (Cons y ys)
  show ?case
  proof (cases "f x \<le> f y")
    case True
    have "f x < f z \<or> (f x = f z \<and> x < z)" if "z \<in> set (y # ys)" for z
    proof -
      have "f y \<le> f z" using that Cons.prems(1) by auto
      moreover have "x < z" using that Cons.prems(2) by auto
      ultimately show ?thesis using True by auto
    qed
    then show ?thesis using True Cons.prems(1) by simp
  next
    case False
    have "sorted_wrt (\<lambda>a b. f a < f b \<or> (f a = f b \<and> a < b)) (insort_key f x ys)"
      using Cons by simp
    then show ?thesis using False Cons.prems(1) by (auto simp: set_insort_key)
  qed
qed

lemma sort_key_lex:
  fixes f :: "nat \<Rightarrow> real"
  assumes "sorted_wrt (<) xs"
  shows "sorted_wrt (\<lambda>a b. f a < f b \<or> (f a = f b \<and> a < b)) (sort_key f xs)"
  using assms
proof (induction xs)
  case Nil
  show ?case by simp
next
  case (Cons x xs)
  then show ?case by (simp add: insort_key_lex)
qed

lemma order_debts_lex:
  "sorted_wrt
     (\<lambda>a b. if startswith st ''Snowball''
            then balance (ds ! a) < balance (ds ! b)
                 \<or> (balance (ds ! a) = balance (ds ! b) \<and> a < b)
            else apr_pct (ds ! b) < apr_pct (ds ! a)
                 \<or> (apr_pct (ds ! a) = apr_pct (ds ! b) \<and> a < b))
     (order_debts ds st)"
proof (cases "startswith st ''Snowball''")
  case True
  then show ?thesis
    using sort_key_lex[of "[0..<length ds]" "\<lambda>i. balance (ds ! i)"]
    by (simp add: order_debts_def)
next
  case False
  then show ?thesis
    using sort_key_lex[of "[0..<length ds]" "\<lambda>i. - apr_pct (ds ! i)"]
    by (simp add: order_debts_def)
qed

lemma target_first:
  assumes "target ord cur = Some t"
  shows "\<exists>p<length ord. ord ! p = t \<and> (\<forall>q<p. balance (cur ! (ord ! q)) \<le> 0.005)"
  using assms by (auto simp: target_def find_Some_iff not_less)

lemma target_least:
  assumes "target ord cur = Some t" and "sorted_wrt R ord"
    and "j \<in> set ord" and "0.005 < balance (cur ! j)" and "j \<noteq> t"
  shows "R t j"
proof -
  obtain p where p: "p < length ord" "ord ! p = t" "\<forall>q<p. balance (cur ! (ord ! q)) \<le> 0.005"
    using target_first[OF assms(1)] by blast
  obtain q where q: "q < length ord" "ord ! q = j" using assms(3) by (auto simp: in_set_conv_nth)
  have "\<not> q < p" using p(3) q(2) assms(4) by auto
  moreover have "q \<noteq> p" using p(2) q(2) assms(5) by auto
  ultimately have "p < q" by simp
  then show ?thesis using sorted_wrt_nth_less[OF assms(2) _ q(1)] p(2) q(2) by auto
qed


text \<open>
  C3. In every simulated month at most one debt is paid more than its minimum payment.
  That debt is above 0.005 after the minimum payments and is the first such debt in the
  order that was fixed at the start from the input values; every other debt gets its
  minimum payment only. Among the debts that are above 0.005 at that point it has,
  for Snowball, the smallest original balance and, for Avalanche, the highest original
  rate, and of several debts with that same value it is the one listed first in the
  input.
\<close>

theorem extra_payment_goes_to_head_of_order:
  assumes "simulate debts_in monthly_budget strategy = Inr (rws, res)"
    and "k < months res"
    and "month_parts monthly_budget (order_debts debts_in strategy)
           (debts (state_after debts_in monthly_budget strategy k)) = (ds2, ps, rb, ints)"
    and "i < length debts_in"
    and "ps ! i \<noteq> pay_amount (accrue_debt (debts (state_after debts_in monthly_budget strategy k) ! i))"
  shows "0.005 < balance (after_minimums (debts (state_after debts_in monthly_budget strategy k)) ! i)
         \<and> (\<exists>p<length (order_debts debts_in strategy).
               order_debts debts_in strategy ! p = i
               \<and> (\<forall>q<p. balance (after_minimums
                                    (debts (state_after debts_in monthly_budget strategy k))
                                  ! (order_debts debts_in strategy ! q)) \<le> 0.005))
         \<and> (\<forall>j<length debts_in. j \<noteq> i \<longrightarrow>
               ps ! j = pay_amount (accrue_debt
                          (debts (state_after debts_in monthly_budget strategy k) ! j)))
         \<and> (\<forall>j<length debts_in.
               j \<noteq> i
               \<and> 0.005 < balance (after_minimums
                                    (debts (state_after debts_in monthly_budget strategy k)) ! j)
               \<longrightarrow> (if startswith strategy ''Snowball''
                    then balance (debts_in ! i) < balance (debts_in ! j)
                         \<or> (balance (debts_in ! i) = balance (debts_in ! j) \<and> i < j)
                    else apr_pct (debts_in ! j) < apr_pct (debts_in ! i)
                         \<or> (apr_pct (debts_in ! i) = apr_pct (debts_in ! j) \<and> i < j)))"
proof -
  define s where "s = state_after debts_in monthly_budget strategy k"
  define ord where "ord = order_debts debts_in strategy"
  define cur where "cur = after_minimums (debts s)"
  have p: "month_parts monthly_budget ord (debts s) = (ds2, ps, rb, ints)"
    using assms(3) by (simp add: s_def ord_def)
  have v: "valid_input debts_in monthly_budget" using assms(1) by (rule simulate_Inr_valid)
  have l: "length (debts s) = length debts_in"
    using state_after_lengths(1)[OF v] by (simp add: s_def)
  have pay: "ps ! j = pay_amount (accrue_debt (debts s ! j)) + extra_paid monthly_budget ord (debts s) j"
    if "j < length debts_in" for j
    using month_parts_nth(5)[OF p] that l by simp
  have "extra_paid monthly_budget ord (debts s) i \<noteq> 0"
    using pay[OF assms(4)] assms(5) by (simp add: s_def)
  then have t: "target ord cur = Some i"
    by (simp add: extra_paid_def cur_def split: if_splits)
  have a: "0.005 < balance (cur ! i)" using target_SomeD(2)[OF t] .
  have b: "\<exists>p<length ord. ord ! p = i \<and> (\<forall>q<p. balance (cur ! (ord ! q)) \<le> 0.005)"
    using target_first[OF t] .
  have c: "ps ! j = pay_amount (accrue_debt (debts s ! j))"
    if "j < length debts_in" "j \<noteq> i" for j
  proof -
    have "extra_paid monthly_budget ord (debts s) j = 0"
      using t that(2) by (simp add: extra_paid_def cur_def)
    then show ?thesis using pay[OF that(1)] by simp
  qed
  have d: "if startswith strategy ''Snowball''
           then balance (debts_in ! i) < balance (debts_in ! j)
                \<or> (balance (debts_in ! i) = balance (debts_in ! j) \<and> i < j)
           else apr_pct (debts_in ! j) < apr_pct (debts_in ! i)
                \<or> (apr_pct (debts_in ! i) = apr_pct (debts_in ! j) \<and> i < j)"
    if "j < length debts_in" "j \<noteq> i" "0.005 < balance (cur ! j)" for j
  proof -
    have "j \<in> set ord" using that(1) by (simp add: ord_def set_order_debts)
    then show ?thesis
      using target_least[OF t order_debts_lex[of strategy debts_in, folded ord_def] _ that(3,2)]
      by simp
  qed
  show ?thesis
    using a b c d unfolding s_def ord_def cur_def by blast
qed

theorem extra_payment_goes_to_head_of_order_witness:
  "0.005 < balance (after_minimums (debts (state_after
       [\<lparr>name = ''A'', balance = 100, apr_pct = 12, min_pay = 10\<rparr>,
        \<lparr>name = ''B'', balance = 100, apr_pct = 24, min_pay = 10\<rparr>] 100
       ''Avalanche (Highest APR First)'' 0)) ! 1)
   \<and> fst (snd (month_parts 100
       (order_debts [\<lparr>name = ''A'', balance = 100, apr_pct = 12, min_pay = 10\<rparr>,
                     \<lparr>name = ''B'', balance = 100, apr_pct = 24, min_pay = 10\<rparr>]
          ''Avalanche (Highest APR First)'')
       (debts (state_after
          [\<lparr>name = ''A'', balance = 100, apr_pct = 12, min_pay = 10\<rparr>,
           \<lparr>name = ''B'', balance = 100, apr_pct = 24, min_pay = 10\<rparr>] 100
          ''Avalanche (Highest APR First)'' 0)))) ! 0
     = pay_amount (accrue_debt (debts (state_after
          [\<lparr>name = ''A'', balance = 100, apr_pct = 12, min_pay = 10\<rparr>,
           \<lparr>name = ''B'', balance = 100, apr_pct = 24, min_pay = 10\<rparr>] 100
          ''Avalanche (Highest APR First)'' 0) ! 0))"
proof -
  let ?D = "[\<lparr>name = ''A'', balance = 100, apr_pct = 12, min_pay = 10\<rparr>,
             \<lparr>name = ''B'', balance = 100, apr_pct = 24, min_pay = 10\<rparr>]"
  let ?S = "''Avalanche (Highest APR First)''"
  let ?P = "month_parts 100 (order_debts ?D ?S) (debts (state_after ?D 100 ?S 0))"
  have e: "simulate ?D 100 ?S
           = Inr (fst (projr (simulate ?D 100 ?S)), snd (projr (simulate ?D 100 ?S)))"
    by (simp add: simulate_def simulate_with_def Let_def)
  have m: "0 < months (snd (projr (simulate ?D 100 ?S)))"
    by code_simp
  have p: "?P = (fst ?P, fst (snd ?P), fst (snd (snd ?P)), snd (snd (snd ?P)))"
    by simp
  have i: "1 < length ?D" by simp
  have x: "fst (snd ?P) ! 1 \<noteq> pay_amount (accrue_debt (debts (state_after ?D 100 ?S 0) ! 1))"
    by code_simp
  show ?thesis
    using extra_payment_goes_to_head_of_order[OF e m p i x] by simp
qed

end
